theory Spec2Isabelle
  imports
    Main
    "HOL-Library.Word"
    "HOL-Library.AList"
    "HOL-Library.Log_Nat"
    "HOL-Library.Multiset"
begin

section \<open>Strings\<close>

text \<open>
  Text typed by the user is a JavaScript string: a sequence of UTF-16 code units, and
  \<open>.length\<close> counts code units. Property keys and the validation messages are ASCII
  literals of the source and are kept as \<^typ>\<open>string\<close>.
\<close>

type_synonym jsstring = "16 word list"

text \<open>
  \<open>String.prototype.trim\<close> strips WhiteSpace and LineTerminator code points from both
  ends: TAB, LF, VT, FF, CR, SP, NBSP, the Unicode space separators (U+1680,
  U+2000..U+200A, U+202F, U+205F, U+3000), LS, PS and the BOM. All of them lie in the
  basic plane, so each is one code unit.
\<close>

definition isWhiteSpace :: "16 word \<Rightarrow> bool" where
  "isWhiteSpace c \<longleftrightarrow>
     c \<in> set [0x0009, 0x000A, 0x000B, 0x000C, 0x000D, 0x0020, 0x00A0, 0x1680,
               0x2000, 0x2001, 0x2002, 0x2003, 0x2004, 0x2005, 0x2006, 0x2007,
               0x2008, 0x2009, 0x200A, 0x2028, 0x2029, 0x202F, 0x205F, 0x3000, 0xFEFF]"

definition trim :: "jsstring \<Rightarrow> jsstring" where
  "trim s = rev (dropWhile isWhiteSpace (rev (dropWhile isWhiteSpace s)))"

text \<open>An ASCII literal as a JavaScript string.\<close>

definition js :: "string \<Rightarrow> jsstring" where
  "js s = map of_char s"

section \<open>The star widget\<close>

text \<open>\<open>a || b\<close> on numbers: \<open>a\<close> unless it is 0, then \<open>b\<close>.\<close>

definition js_or :: "int \<Rightarrow> int \<Rightarrow> int" where
  "js_or a b = (if a \<noteq> 0 then a else b)"

text \<open>
  What \<open>StarRating\<close> renders from its \<open>rating\<close> and \<open>interactive\<close> props and its local
  state \<open>hoveredRating\<close>: for each star of \<open>[1, 2, 3, 4, 5]\<close>, in order, whether its
  class has \<open>filled\<close> and whether it has \<open>interactive\<close>.
\<close>

definition StarRating :: "int \<Rightarrow> bool \<Rightarrow> int \<Rightarrow> (bool \<times> bool) list" where
  "StarRating rating interactive hoveredRating =
     map (\<lambda>star. (star \<le> js_or hoveredRating rating, interactive)) [1, 2, 3, 4, 5]"

definition handleMouseEnter :: "bool \<Rightarrow> int \<Rightarrow> int \<Rightarrow> int" where
  "handleMouseEnter interactive v hoveredRating = (if interactive then v else hoveredRating)"

definition handleMouseLeave :: "bool \<Rightarrow> int \<Rightarrow> int" where
  "handleMouseLeave interactive hoveredRating = (if interactive then 0 else hoveredRating)"

section \<open>Data\<close>

text \<open>
  \<open>newReview\<close> is the object \<open>{name, rating, comment}\<close>. A committed review is
  \<open>{id: Date.now(), ...newReview, date: ...}\<close>: the draft's three properties extended by
  \<open>id\<close> and \<open>date\<close>. Ratings are JavaScript numbers that only ever hold integers.
  A date string \<open>YYYY-MM-DD\<close> is represented by the number of the UTC day it denotes
  (days since 1970-01-01), which is all that \<open>new Date(a.date) - new Date(b.date)\<close>
  observes of it.
\<close>

record draft =
  name :: jsstring
  rating :: int
  comment :: jsstring

record review = draft +
  id_review :: int
  date :: int

text \<open>
  \<open>formErrors\<close> is an object from property keys to messages; \<open>{...prev, k: v}\<close> is
  \<^const>\<open>AList.update\<close>, \<open>Object.keys(errors).length\<close> is the length of the list.
\<close>

type_synonym errors = "(string \<times> string) list"

definition truthy :: "string option \<Rightarrow> bool" where
  "truthy v = (case v of None \<Rightarrow> False | Some m \<Rightarrow> m \<noteq> [])"

section \<open>Validation\<close>

definition validateForm_errors :: "draft \<Rightarrow> errors" where
  "validateForm_errors newReview =
     (let errors = [];
          errors = (if trim (name newReview) = []
                    then AList.update ''name'' ''Name is required'' errors else errors);
          errors = (if rating newReview = 0
                    then AList.update ''rating'' ''Please select a rating'' errors else errors);
          errors = (if trim (comment newReview) = []
                    then AList.update ''comment'' ''Review comment is required'' errors
                    else if length (trim (comment newReview)) < 10
                    then AList.update ''comment''
                           ''Review must be at least 10 characters long'' errors
                    else errors)
      in errors)"

text \<open>The value \<open>validateForm\<close> returns: \<open>Object.keys(errors).length === 0\<close>.\<close>

definition validateForm_ok :: "draft \<Rightarrow> bool" where
  "validateForm_ok newReview \<longleftrightarrow> length (validateForm_errors newReview) = 0"

text \<open>
  The specification names the failures instead of quoting the messages; this is its
  vocabulary, read off the four messages of the source.
\<close>

datatype error_kind = EmptyField | MissingRating | TooShort

definition kind_of_message :: "string \<Rightarrow> error_kind option" where
  "kind_of_message m =
     (if m = ''Name is required'' then Some EmptyField
      else if m = ''Review comment is required'' then Some EmptyField
      else if m = ''Please select a rating'' then Some MissingRating
      else if m = ''Review must be at least 10 characters long'' then Some TooShort
      else None)"

definition field_error :: "errors \<Rightarrow> string \<Rightarrow> error_kind option" where
  "field_error errs k = (case map_of errs k of None \<Rightarrow> None | Some m \<Rightarrow> kind_of_message m)"

section \<open>Sorting and filtering\<close>

text \<open>\<open>new Date(d)\<close> as a number, for a date-only string: midnight UTC of that day.\<close>

definition Date_value :: "int \<Rightarrow> int" where
  "Date_value d = d * 86400000"

text \<open>The comparator handed to \<open>sort\<close>.\<close>

definition compare_reviews :: "string \<Rightarrow> review \<Rightarrow> review \<Rightarrow> int" where
  "compare_reviews sortBy a b =
     (if sortBy = ''rating''
      then js_or (rating b - rating a) (Date_value (date b) - Date_value (date a))
      else Date_value (date b) - Date_value (date a))"

text \<open>
  \<open>Array.prototype.sort\<close> with a comparator. The engine chooses the algorithm; for a
  consistent comparator the result is fixed: the stable rearrangement in which \<open>a\<close>
  comes before \<open>b\<close> whenever \<open>cmp(a, b) < 0\<close>. Inserting from the right, each element in
  front of the first one it does not have to follow, computes it.
\<close>

fun insert_by :: "('a \<Rightarrow> 'a \<Rightarrow> int) \<Rightarrow> 'a \<Rightarrow> 'a list \<Rightarrow> 'a list" where
  "insert_by cmp x [] = [x]"
| "insert_by cmp x (y # ys) = (if cmp x y \<le> 0 then x # y # ys else y # insert_by cmp x ys)"

definition sort_by :: "('a \<Rightarrow> 'a \<Rightarrow> int) \<Rightarrow> 'a list \<Rightarrow> 'a list" where
  "sort_by cmp xs = foldr (insert_by cmp) xs []"

text \<open>Two elements between which the comparator does not decide.\<close>

definition tied :: "('a \<Rightarrow> 'a \<Rightarrow> int) \<Rightarrow> 'a \<Rightarrow> 'a \<Rightarrow> bool" where
  "tied cmp x y \<longleftrightarrow> cmp x y \<le> 0 \<and> cmp y x \<le> 0"

text \<open>The value of \<open>sortedAndFilteredReviews\<close>.\<close>

definition sortedAndFilteredReviews :: "string \<Rightarrow> int \<Rightarrow> review list \<Rightarrow> review list" where
  "sortedAndFilteredReviews sortBy filterRating reviews =
     sort_by (compare_reviews sortBy)
       (filter (\<lambda>review. filterRating = 0 \<or> rating review = filterRating) reviews)"

text \<open>
  \<open>sort\<close> rearranges the array it is called on, so whether the stored list survives
  depends on which array that is. Arrays are therefore also modelled as objects in a
  store, addressed by their index in it: \<open>filter\<close> allocates a new array, \<open>sort\<close>
  overwrites the one it is given and returns it.
\<close>

type_synonym heap = "review list list"

definition array_filter :: "(review \<Rightarrow> bool) \<Rightarrow> nat \<Rightarrow> heap \<Rightarrow> nat \<times> heap" where
  "array_filter p a h = (length h, h @ [filter p (h ! a)])"

definition array_sort :: "(review \<Rightarrow> review \<Rightarrow> int) \<Rightarrow> nat \<Rightarrow> heap \<Rightarrow> nat \<times> heap" where
  "array_sort cmp a h = (a, h[a := sort_by cmp (h ! a)])"

definition listReviews :: "string \<Rightarrow> int \<Rightarrow> nat \<Rightarrow> heap \<Rightarrow> nat \<times> heap" where
  "listReviews sortBy filterRating reviews h =
     (let (filtered, h1) =
            array_filter (\<lambda>review. filterRating = 0 \<or> rating review = filterRating) reviews h
      in array_sort (compare_reviews sortBy) filtered h1)"

text \<open>The two orders the specification names.\<close>

definition date_desc :: "review \<Rightarrow> review \<Rightarrow> bool" where
  "date_desc a b \<longleftrightarrow> date b \<le> date a"

definition rating_desc_date_desc :: "review \<Rightarrow> review \<Rightarrow> bool" where
  "rating_desc_date_desc a b \<longleftrightarrow>
     rating b < rating a \<or> (rating a = rating b \<and> date b \<le> date a)"

section \<open>The average\<close>

text \<open>
  JavaScript numbers are IEEE 754 doubles; a finite double is a rational number, and is
  modelled as that rational. Integers below \<open>2^53\<close> in magnitude are doubles and add
  exactly, so \<open>reduce\<close> is an integer sum. The quotient of two such integers is the
  nearest number with 53 significant bits, ties to the even significand; it lies
  between \<open>2^-53\<close> and \<open>2^53\<close>, so the exponent range plays no part.
\<close>

definition pow2 :: "int \<Rightarrow> rat" where
  "pow2 k = (if 0 \<le> k then 2 ^ nat k else 1 / 2 ^ nat (- k))"

definition round_half_even :: "rat \<Rightarrow> int" where
  "round_half_even x =
     (let f = \<lfloor>x\<rfloor>; d = x - of_int f
      in if d < 1 / 2 then f else if 1 / 2 < d then f + 1 else if even f then f else f + 1)"

text \<open>The exponent \<open>e\<close> with \<open>2^e \<le> a / b < 2^(e + 1)\<close>, for positive \<open>a\<close> and \<open>b\<close>.\<close>

definition binade :: "int \<Rightarrow> int \<Rightarrow> int" where
  "binade a b =
     (let d = bitlen a - bitlen b
      in if pow2 d * of_int b \<le> of_int a then d else d - 1)"

definition js_divide_pos :: "int \<Rightarrow> int \<Rightarrow> rat" where
  "js_divide_pos a b =
     (let ulp = pow2 (binade a b - 52)
      in of_int (round_half_even (of_int a / of_int b / ulp)) * ulp)"

text \<open>\<open>a / b\<close> for integers \<open>a\<close> and \<open>b\<close> with \<open>b\<close> positive.\<close>

definition js_divide :: "int \<Rightarrow> int \<Rightarrow> rat" where
  "js_divide a b =
     (if a = 0 then 0
      else if a < 0 then - js_divide_pos (- a) b
      else js_divide_pos a b)"

definition digit :: "nat \<Rightarrow> char" where
  "digit d = ''0123456789'' ! d"

function decimal :: "nat \<Rightarrow> string" where
  "decimal n = (if n < 10 then [digit n] else decimal (n div 10) @ [digit (n mod 10)])"
  by pat_completeness auto
termination
  by (relation "measure id") auto

declare decimal.simps [simp del]

text \<open>
  \<open>x.toFixed(1)\<close> for \<open>|x| < 10^21\<close>: with the sign set aside, the integer \<open>n\<close> for which
  \<open>n / 10 - x\<close> is as close to zero as possible, the larger one if there are two,
  written in decimal with a point before its last digit.
\<close>

definition tenths :: "rat \<Rightarrow> nat" where
  "tenths x = nat \<lfloor>x * 10 + 1 / 2\<rfloor>"

definition fixed1 :: "nat \<Rightarrow> string" where
  "fixed1 n = decimal (n div 10) @ ''.'' @ decimal (n mod 10)"

definition toFixed1 :: "rat \<Rightarrow> string" where
  "toFixed1 x = (if x < 0 then ''-'' @ fixed1 (tenths (- x)) else fixed1 (tenths x))"

text \<open>\<open>averageRating\<close> is the number \<open>0\<close> for no reviews and a string otherwise.\<close>

datatype jsvalue = JsNumber rat | JsString string

definition averageRating :: "review list \<Rightarrow> jsvalue" where
  "averageRating reviews =
     (if length reviews > 0
      then JsString (toFixed1
             (js_divide (foldl (\<lambda>sum review. sum + rating review) 0 reviews)
                (int (length reviews))))
      else JsNumber 0)"

text \<open>The exact mean, for comparison.\<close>

definition mean :: "review list \<Rightarrow> rat" where
  "mean rs = of_int (sum_list (map rating rs)) / of_nat (length rs)"

text \<open>
  Rounding a number to tenths as arithmetic has it: to the nearest tenth, and by a rule
  when it lies halfway between two. The result is counted in tenths.
\<close>

datatype tie_rule = HalfUp | HalfDown | HalfEven | HalfOdd

definition round_tenths :: "tie_rule \<Rightarrow> rat \<Rightarrow> int" where
  "round_tenths t q =
     (let f = \<lfloor>10 * q\<rfloor>; d = 10 * q - of_int f
      in if d < 1 / 2 then f
         else if 1 / 2 < d then f + 1
         else (case t of
                 HalfUp \<Rightarrow> f + 1
               | HalfDown \<Rightarrow> f
               | HalfEven \<Rightarrow> if even f then f else f + 1
               | HalfOdd \<Rightarrow> if odd f then f else f + 1))"

text \<open>
  What the page shows for a mean between 0 and 5, in tenths: the nearest tenth, and for
  a mean halfway between two tenths the upper one, except for the twenty means listed,
  where it is the lower one. These are the halfway means whose nearest double lies
  below them.
\<close>

definition halfway_down :: "rat list" where
  "halfway_down =
     [3 / 20, 7 / 20, 17 / 20, 19 / 20, 23 / 20, 29 / 20, 33 / 20, 39 / 20, 41 / 20,
      43 / 20, 51 / 20, 53 / 20, 61 / 20, 63 / 20, 71 / 20, 73 / 20, 81 / 20, 87 / 20,
      91 / 20, 97 / 20]"

definition shown_tenths :: "rat \<Rightarrow> nat" where
  "shown_tenths q =
     (if q \<in> set halfway_down then nat \<lfloor>10 * q\<rfloor> else nat \<lfloor>10 * q + 1 / 2\<rfloor>)"

section \<open>Component state and handlers\<close>

text \<open>
  The state of the \<open>Review\<close> component: its seven \<open>useState\<close> cells, the counter
  \<open>reviewCountRef.current\<close>, and the \<open>handleSubmit\<close> calls suspended at their
  \<open>await\<close>, oldest first. A suspended call holds the \<open>newReview\<close> of the render it was
  created in (the handler closes over it), so that is what is recorded for it.
  Every handler runs to its end (or to its \<open>await\<close>) before the next event is handled,
  and React re-renders in between, so a handler reads the current state.
\<close>

record state =
  reviews :: "review list"
  newReview :: draft
  showForm :: bool
  isSubmitting :: bool
  formErrors :: errors
  sortBy :: string
  filterRating :: int
  reviewCount :: nat
  pending :: "draft list"

definition emptyReview :: draft where
  "emptyReview = \<lparr>name = [], rating = 0, comment = []\<rparr>"

definition initial :: state where
  "initial =
     \<lparr>reviews =
        [\<lparr>name = js ''John Doe'', rating = 5,
          comment = js ''Excellent product! Highly recommended.'',
          id_review = 1, date = 19737\<rparr>,
         \<lparr>name = js ''Jane Smith'', rating = 4,
          comment = js ''Good quality, fast delivery. Very satisfied.'',
          id_review = 2, date = 19732\<rparr>],
      newReview = emptyReview,
      showForm = False,
      isSubmitting = False,
      formErrors = [],
      sortBy = ''date'',
      filterRating = 0,
      reviewCount = 2,
      pending = []\<rparr>"

definition handleRatingChange :: "int \<Rightarrow> state \<Rightarrow> state" where
  "handleRatingChange r s = s\<lparr>newReview := (newReview s)\<lparr>rating := r\<rparr>\<rparr>"

text \<open>
  \<open>handleClick\<close> of a \<open>StarRating\<close> with the given \<open>interactive\<close> and
  \<open>onRatingChange\<close> props.
\<close>

definition handleClick ::
    "bool \<Rightarrow> (int \<Rightarrow> state \<Rightarrow> state) option \<Rightarrow> int \<Rightarrow> state \<Rightarrow> state" where
  "handleClick interactive onRatingChange v s =
     (case onRatingChange of
        None \<Rightarrow> s
      | Some f \<Rightarrow>
          if interactive
          then (let s1 = f v s
                in s1\<lparr>formErrors := AList.update ''rating'' [] (formErrors s1)\<rparr>)
          else s)"

text \<open>
  \<open>{...prev, [name]: value}\<close>. The handler is attached to the two elements with
  \<open>name="name"\<close> and \<open>name="comment"\<close>; no other key arrives.
\<close>

definition set_property :: "string \<Rightarrow> jsstring \<Rightarrow> draft \<Rightarrow> draft" where
  "set_property n v d =
     (if n = ''name'' then d\<lparr>name := v\<rparr>
      else if n = ''comment'' then d\<lparr>comment := v\<rparr>
      else d)"

definition handleInputChange :: "string \<times> jsstring \<Rightarrow> state \<Rightarrow> state" where
  "handleInputChange target s =
     (let n = fst target; v = snd target;
          s1 = s\<lparr>newReview := set_property n v (newReview s)\<rparr>
      in if truthy (map_of (formErrors s) n)
         then s1\<lparr>formErrors := AList.update n [] (formErrors s1)\<rparr>
         else s1)"

text \<open>
  \<open>handleSubmit\<close> up to its \<open>await\<close>: \<open>validateForm\<close> stores the errors; an invalid
  draft returns (after moving the focus, which is the document's state and not the
  component's), a valid one sets \<open>isSubmitting\<close> and suspends. There is no test of
  \<open>isSubmitting\<close>.
\<close>

definition handleSubmit :: "state \<Rightarrow> state" where
  "handleSubmit s =
     (let s1 = s\<lparr>formErrors := validateForm_errors (newReview s)\<rparr>
      in if \<not> validateForm_ok (newReview s) then s1
         else s1\<lparr>isSubmitting := True, pending := pending s @ [newReview s]\<rparr>)"

text \<open>
  The rest of \<open>handleSubmit\<close>, run when the timer of the oldest suspended call fires.
  \<open>t_id\<close> is the reading of \<open>Date.now()\<close> and \<open>t_date\<close> that of \<open>new Date()\<close>, in
  milliseconds since the epoch; \<open>toISOString().split('T')[0]\<close> is the UTC day of the
  latter.
\<close>

definition todayUTC :: "int \<Rightarrow> int" where
  "todayUTC t = t div 86400000"

definition handleSubmit_resume :: "int \<Rightarrow> int \<Rightarrow> state \<Rightarrow> state" where
  "handleSubmit_resume t_id t_date s =
     (case pending s of
        [] \<Rightarrow> s
      | d # rest \<Rightarrow>
          s\<lparr>reviews :=
              \<lparr>name = name d, rating = rating d, comment = comment d,
               id_review = t_id, date = todayUTC t_date\<rparr> # reviews s,
            reviewCount := reviewCount s + 1,
            newReview := emptyReview,
            formErrors := [],
            showForm := False,
            isSubmitting := False,
            pending := rest\<rparr>)"

definition handleFormToggle :: "state \<Rightarrow> state" where
  "handleFormToggle s =
     (let s1 = s\<lparr>showForm := \<not> showForm s\<rparr>
      in if showForm s then s1\<lparr>newReview := emptyReview, formErrors := []\<rparr> else s1)"

definition handleCancelForm :: "state \<Rightarrow> state" where
  "handleCancelForm s = s\<lparr>showForm := False, newReview := emptyReview, formErrors := []\<rparr>"

section \<open>Events\<close>

text \<open>
  The three places where \<open>StarRating\<close> is rendered: over the average (no props but
  \<open>rating\<close>), in the form (\<open>interactive\<close>, with \<open>handleRatingChange\<close>), and in each
  review card.
\<close>

datatype widget = AverageStars | FormStars | CardStars

definition interactive_of :: "widget \<Rightarrow> bool" where
  "interactive_of w = (w = FormStars)"

definition onRatingChange_of :: "widget \<Rightarrow> (int \<Rightarrow> state \<Rightarrow> state) option" where
  "onRatingChange_of w = (if w = FormStars then Some handleRatingChange else None)"

datatype event =
    Change string jsstring
  | StarClick widget int
  | Submit
  | Resume int int
  | Toggle
  | CancelForm
  | SetSortBy string
  | SetFilterRating int

fun dispatch :: "event \<Rightarrow> state \<Rightarrow> state" where
  "dispatch (Change n v) s = handleInputChange (n, v) s"
| "dispatch (StarClick w v) s = handleClick (interactive_of w) (onRatingChange_of w) v s"
| "dispatch Submit s = handleSubmit s"
| "dispatch (Resume t_id t_date) s = handleSubmit_resume t_id t_date s"
| "dispatch Toggle s = handleFormToggle s"
| "dispatch CancelForm s = handleCancelForm s"
| "dispatch (SetSortBy v) s = s\<lparr>sortBy := v\<rparr>"
| "dispatch (SetFilterRating v) s = s\<lparr>filterRating := v\<rparr>"

text \<open>
  The events the rendered page can deliver in a state. The form, with its inputs, its
  stars and its two buttons, is rendered only while \<open>showForm\<close>; the inputs and both
  buttons carry \<open>disabled={isSubmitting}\<close>, the stars and the toggle button in the
  header do not. A star is one of \<open>[1, 2, 3, 4, 5]\<close>, the selects offer the listed
  options only, and a timer fires only for a suspended call. The inputs are also
  \<open>required\<close>, so a browser holds a submit back while one of them is empty; this is
  left out, and what holds of all the events offered here holds of the fewer delivered
  then.
\<close>

fun enabled :: "state \<Rightarrow> event \<Rightarrow> bool" where
  "enabled s (Change n v) \<longleftrightarrow> showForm s \<and> \<not> isSubmitting s \<and> n \<in> set [''name'', ''comment'']"
| "enabled s (StarClick w v) \<longleftrightarrow> v \<in> set [1, 2, 3, 4, 5] \<and> (w \<noteq> FormStars \<or> showForm s)"
| "enabled s Submit \<longleftrightarrow> showForm s \<and> \<not> isSubmitting s"
| "enabled s (Resume t_id t_date) \<longleftrightarrow> pending s \<noteq> []"
| "enabled s Toggle \<longleftrightarrow> True"
| "enabled s CancelForm \<longleftrightarrow> showForm s \<and> \<not> isSubmitting s"
| "enabled s (SetSortBy v) \<longleftrightarrow> v \<in> set [''date'', ''rating'']"
| "enabled s (SetFilterRating v) \<longleftrightarrow> v \<in> set [0, 1, 2, 3, 4, 5]"

text \<open>A sequence of events, each delivered only if the page offers it.\<close>

fun run :: "event list \<Rightarrow> state \<Rightarrow> state option" where
  "run [] s = Some s"
| "run (e # es) s = (if enabled s e then run es (dispatch e s) else None)"

text \<open>
  Handlers called one after the other with no regard to what the page offers, and the
  events whose arguments are among those the page can pass: a star of
  \<open>[1, 2, 3, 4, 5]\<close>, an input named \<open>name\<close> or \<open>comment\<close>.
\<close>

fun handle_all :: "event list \<Rightarrow> state \<Rightarrow> state" where
  "handle_all [] s = s"
| "handle_all (e # es) s = handle_all es (dispatch e s)"

definition well_formed :: "event \<Rightarrow> bool" where
  "well_formed e =
     (case e of
        StarClick w v \<Rightarrow> v \<in> set [1, 2, 3, 4, 5]
      | Change n v \<Rightarrow> n \<in> set [''name'', ''comment'']
      | _ \<Rightarrow> True)"

definition is_Resume :: "event \<Rightarrow> bool" where
  "is_Resume e = (case e of Resume t_id t_date \<Rightarrow> True | _ \<Rightarrow> False)"

section \<open>Properties of states and example data\<close>

text \<open>What the specification requires of a committed review.\<close>

definition committed_ok :: "'a draft_scheme \<Rightarrow> bool" where
  "committed_ok r \<longleftrightarrow>
     1 \<le> rating r \<and> rating r \<le> 5 \<and> 10 \<le> length (trim (comment r)) \<and> trim (name r) \<noteq> []"

text \<open>
  The stored reviews and the drafts of the suspended submissions are fit to be
  committed, and the draft's rating is one of 0..5.
\<close>

definition store_ok :: "state \<Rightarrow> bool" where
  "store_ok s \<longleftrightarrow>
     list_all committed_ok (reviews s) \<and> list_all committed_ok (pending s)
     \<and> 0 \<le> rating (newReview s) \<and> rating (newReview s) \<le> 5"

text \<open>\<open>isSubmitting\<close> is set exactly while a submission is suspended, and at most one is.\<close>

definition single_flight :: "state \<Rightarrow> bool" where
  "single_flight s \<longleftrightarrow> (isSubmitting s \<longleftrightarrow> pending s \<noteq> []) \<and> length (pending s) \<le> 1"

text \<open>A closed form has the empty draft and no errors.\<close>

definition closed_is_reset :: "state \<Rightarrow> bool" where
  "closed_is_reset s \<longleftrightarrow> showForm s \<or> (newReview s = emptyReview \<and> formErrors s = [])"

text \<open>The review that \<open>handleSubmit\<close> builds from a draft and the two clock readings.\<close>

definition commit :: "draft \<Rightarrow> int \<Rightarrow> int \<Rightarrow> review" where
  "commit d t_id t_date =
     \<lparr>name = name d, rating = rating d, comment = comment d,
      id_review = t_id, date = todayUTC t_date\<rparr>"

text \<open>Example data: a valid draft, and what a user does to enter and submit it.\<close>

definition alice :: draft where
  "alice = \<lparr>name = js ''Alice'', rating = 4, comment = js ''Great product overall''\<rparr>"

definition submitting :: "event list" where
  "submitting =
     [Toggle, Change ''name'' (js ''Alice''), StarClick FormStars 4,
      Change ''comment'' (js ''Great product overall''), Submit]"

text \<open>The same, with a star clicked and the form closed while the submission is suspended.\<close>

definition session :: "event list" where
  "session = submitting @ [StarClick FormStars 2, Toggle, Resume 1700000000000 1700000000000]"

text \<open>The state in which the submission of \<open>alice\<close> is suspended.\<close>

definition in_flight :: state where
  "in_flight =
     initial\<lparr>newReview := alice, showForm := True, isSubmitting := True, pending := [alice]\<rparr>"

text \<open>A form submitted with a blank name, no star and a short comment.\<close>

definition all_invalid :: state where
  "all_invalid =
     handleSubmit
       (initial\<lparr>showForm := True,
                newReview := \<lparr>name = js '' '', rating = 0, comment = js ''short''\<rparr>\<rparr>)"

text \<open>A form opened, partly filled, submitted in vain and closed again.\<close>

definition abandoned :: "event list" where
  "abandoned =
     [Toggle, Change ''name'' (js ''Al''), StarClick FormStars 3,
      Change ''comment'' (js ''ok''), Submit, Toggle]"

text \<open>A review with a given rating and day, and lists of them.\<close>

definition entry :: "int \<Rightarrow> int \<Rightarrow> review" where
  "entry r d =
     \<lparr>name = js ''A'', rating = r, comment = js ''0123456789'', id_review = d, date = d\<rparr>"

definition shelf :: "review list" where
  "shelf = [entry 3 10, entry 5 20, entry 5 30]"

definition stars :: "int list \<Rightarrow> review list" where
  "stars rs = map (\<lambda>r. entry r 0) rs"

text \<open>Twenty reviews with the mean 4.35.\<close>

definition halfway_low :: "review list" where
  "halfway_low = stars (replicate 13 5 @ [4, 4, 4, 4, 3, 2, 1])"

section \<open>Validation rules\<close>

lemma validateForm_errors_name:
  "map_of (validateForm_errors d) ''name'' =
     (if trim (name d) = [] then Some ''Name is required'' else None)"
  by (simp add: validateForm_errors_def Let_def)

lemma validateForm_errors_rating:
  "map_of (validateForm_errors d) ''rating'' =
     (if rating d = 0 then Some ''Please select a rating'' else None)"
  by (simp add: validateForm_errors_def Let_def)

lemma validateForm_errors_comment:
  "map_of (validateForm_errors d) ''comment'' =
     (if trim (comment d) = [] then Some ''Review comment is required''
      else if length (trim (comment d)) < 10
      then Some ''Review must be at least 10 characters long'' else None)"
  by (simp add: validateForm_errors_def Let_def)

lemma validateForm_errors_keys:
  "fst ` set (validateForm_errors d) \<subseteq> {''name'', ''rating'', ''comment''}"
  by (auto simp add: validateForm_errors_def Let_def split: if_splits)

lemma validateForm_errors_distinct: "distinct (map fst (validateForm_errors d))"
  by (simp add: validateForm_errors_def Let_def)

lemma validateForm_ok_iff:
  "validateForm_ok d \<longleftrightarrow>
     trim (name d) \<noteq> [] \<and> rating d \<noteq> 0 \<and> 10 \<le> length (trim (comment d))"
  by (auto simp add: validateForm_ok_def validateForm_errors_def Let_def)

text \<open>
  C1. The error map of a draft is given by three rules that do not depend on each other:
  \<open>name\<close> carries EmptyField exactly when the trimmed name is empty, \<open>rating\<close> carries
  MissingRating exactly when the rating is 0, \<open>comment\<close> carries EmptyField when the
  trimmed comment is empty and otherwise TooShort exactly when its trimmed length is
  below 10; no other key is present, and no key twice. \<open>validateForm\<close> returns true
  exactly when none of the three is reported.
\<close>

theorem validateForm_three_rules:
  "field_error (validateForm_errors d) ''name'' =
     (if trim (name d) = [] then Some EmptyField else None)
   \<and> field_error (validateForm_errors d) ''rating'' =
     (if rating d = 0 then Some MissingRating else None)
   \<and> field_error (validateForm_errors d) ''comment'' =
     (if trim (comment d) = [] then Some EmptyField
      else if length (trim (comment d)) < 10 then Some TooShort else None)
   \<and> fst ` set (validateForm_errors d) \<subseteq> {''name'', ''rating'', ''comment''}
   \<and> distinct (map fst (validateForm_errors d))
   \<and> (validateForm_ok d \<longleftrightarrow>
        field_error (validateForm_errors d) ''name'' = None
        \<and> field_error (validateForm_errors d) ''rating'' = None
        \<and> field_error (validateForm_errors d) ''comment'' = None)"
  by (simp add: field_error_def kind_of_message_def validateForm_errors_name
      validateForm_errors_rating validateForm_errors_comment validateForm_errors_keys
      validateForm_errors_distinct validateForm_ok_iff)

theorem validateForm_three_rules_witness:
  "field_error (validateForm_errors \<lparr>name = js ''  '', rating = 0, comment = js '' short ''\<rparr>)
     ''name'' = Some EmptyField
   \<and> field_error (validateForm_errors \<lparr>name = js ''  '', rating = 0, comment = js '' short ''\<rparr>)
     ''rating'' = Some MissingRating
   \<and> field_error (validateForm_errors \<lparr>name = js ''  '', rating = 0, comment = js '' short ''\<rparr>)
     ''comment'' = Some TooShort"
  using validateForm_three_rules [of "\<lparr>name = js ''  '', rating = 0, comment = js '' short ''\<rparr>"]
  by (simp add: js_def trim_def isWhiteSpace_def)

section \<open>Submitting\<close>

lemmas handler_defs =
  handleInputChange_def handleClick_def handleRatingChange_def handleSubmit_def
  handleSubmit_resume_def handleFormToggle_def handleCancelForm_def
  interactive_of_def onRatingChange_of_def

lemma alice_ok: "validateForm_ok alice"
  by (simp add: alice_def js_def validateForm_ok_iff trim_def isWhiteSpace_def)

lemma run_submitting: "run submitting initial = Some in_flight"
  by code_simp

lemma run_session:
  "run session initial =
     Some (initial\<lparr>reviews := commit alice 1700000000000 1700000000000 # reviews initial,
             reviewCount := 3\<rparr>)"
  by code_simp

lemma run_abandoned: "run abandoned initial = Some initial"
  by code_simp

lemma run_snoc:
  "run es s = Some s' \<Longrightarrow> run (es @ [e]) s = (if enabled s' e then Some (dispatch e s') else None)"
  by (induction es arbitrary: s) (auto split: if_splits)

text \<open>
  C3. A draft that fails validation (trimmed name empty, or rating 0, or trimmed comment
  shorter than 10) leaves everything but the error map as it was: the review list is
  the same list, no submission is suspended that could add to it later, and the error
  map is the non-empty map of the validation rules.
\<close>

theorem handleSubmit_invalid_atomic:
  assumes "trim (name (newReview s)) = [] \<or> rating (newReview s) = 0
           \<or> length (trim (comment (newReview s))) < 10"
  shows "handleSubmit s = s\<lparr>formErrors := validateForm_errors (newReview s)\<rparr>
         \<and> reviews (handleSubmit s) = reviews s
         \<and> pending (handleSubmit s) = pending s
         \<and> formErrors (handleSubmit s) \<noteq> []
         \<and> (trim (name (newReview s)) = [] \<longrightarrow>
              field_error (formErrors (handleSubmit s)) ''name'' = Some EmptyField)
         \<and> (rating (newReview s) = 0 \<longrightarrow>
              field_error (formErrors (handleSubmit s)) ''rating'' = Some MissingRating)
         \<and> (length (trim (comment (newReview s))) < 10 \<longrightarrow>
              field_error (formErrors (handleSubmit s)) ''comment''
                \<in> {Some EmptyField, Some TooShort})"
proof -
  from assms have bad: "\<not> validateForm_ok (newReview s)"
    by (auto simp add: validateForm_ok_iff)
  then have eq: "handleSubmit s = s\<lparr>formErrors := validateForm_errors (newReview s)\<rparr>"
    by (simp add: handleSubmit_def Let_def)
  from bad have ne: "validateForm_errors (newReview s) \<noteq> []"
    by (simp add: validateForm_ok_def)
  show ?thesis
    by (simp add: eq ne field_error_def kind_of_message_def validateForm_errors_name
        validateForm_errors_rating validateForm_errors_comment)
qed

theorem handleSubmit_invalid_atomic_witness:
  "reviews (handleSubmit (initial\<lparr>showForm := True, newReview := alice\<lparr>name := js '' ''\<rparr>\<rparr>))
     = reviews initial
   \<and> pending (handleSubmit (initial\<lparr>showForm := True, newReview := alice\<lparr>name := js '' ''\<rparr>\<rparr>))
     = []
   \<and> field_error
       (formErrors (handleSubmit (initial\<lparr>showForm := True, newReview := alice\<lparr>name := js '' ''\<rparr>\<rparr>)))
       ''name'' = Some EmptyField"
proof -
  let ?s = "initial\<lparr>showForm := True, newReview := alice\<lparr>name := js '' ''\<rparr>\<rparr>"
  have h: "trim (name (newReview ?s)) = []"
    by (simp add: alice_def js_def trim_def isWhiteSpace_def)
  then have "trim (name (newReview ?s)) = [] \<or> rating (newReview ?s) = 0
           \<or> length (trim (comment (newReview ?s))) < 10" by (rule disjI1)
  from handleSubmit_invalid_atomic [OF this]
  have a: "reviews (handleSubmit ?s) = reviews ?s"
    and b: "pending (handleSubmit ?s) = pending ?s"
    and c: "trim (name (newReview ?s)) = [] \<longrightarrow>
              field_error (formErrors (handleSubmit ?s)) ''name'' = Some EmptyField"
    by blast+
  have "reviews ?s = reviews initial" and "pending ?s = []"
    by (simp_all add: initial_def)
  with a b c h show ?thesis by simp
qed

lemma suspended_kept:
  assumes "isSubmitting s" and "pending s = [d]" and "run es s = Some s'"
    and "list_all (\<lambda>e. \<not> is_Resume e) es"
  shows "isSubmitting s' \<and> pending s' = [d] \<and> reviews s' = reviews s"
  using assms
proof (induction es arbitrary: s)
  case Nil
  then show ?case by simp
next
  case (Cons e es)
  from Cons.prems have en: "enabled s e" and rest: "run es (dispatch e s) = Some s'"
    and nr: "\<not> is_Resume e" and nrs: "list_all (\<lambda>e. \<not> is_Resume e) es"
    by (auto split: if_splits)
  from en nr Cons.prems(1,2)
  have "isSubmitting (dispatch e s) \<and> pending (dispatch e s) = [d]
        \<and> reviews (dispatch e s) = reviews s"
    by (cases e) (auto simp add: handler_defs is_Resume_def Let_def)
  with Cons.IH [OF _ _ rest nrs] show ?case by simp
qed

text \<open>
  C2, as the code has it. A valid draft submitted while no other submission is suspended
  is committed when its timer fires: the list gains exactly one review, in front, made
  of the draft's name, rating and comment, the clock reading as id and the UTC day of
  the clock as date, whatever else the page delivers while the submission is
  suspended. The id is a timestamp and not a counter: it differs from the ids already
  in the list, and exceeds them, when the clock reading exceeds them.
\<close>

theorem addReview_commits:
  assumes "validateForm_ok (newReview s)" and "pending s = []"
  shows "reviews (handleSubmit_resume t_id t_date (handleSubmit s))
           = commit (newReview s) t_id t_date # reviews s
         \<and> length (reviews (handleSubmit_resume t_id t_date (handleSubmit s)))
           = length (reviews s) + 1
         \<and> pending (handleSubmit_resume t_id t_date (handleSubmit s)) = []
         \<and> (\<forall>es s1. list_all (\<lambda>e. \<not> is_Resume e) es \<and> run es (handleSubmit s) = Some s1
              \<longrightarrow> reviews (handleSubmit_resume t_id t_date s1)
                    = commit (newReview s) t_id t_date # reviews s)
         \<and> (distinct (map id_review (reviews s)) \<and> (\<forall>r \<in> set (reviews s). id_review r < t_id)
            \<longrightarrow> distinct (map id_review
                   (reviews (handleSubmit_resume t_id t_date (handleSubmit s))))
              \<and> (\<forall>r \<in> set (reviews s).
                    id_review r
                      < id_review (hd (reviews (handleSubmit_resume t_id t_date (handleSubmit s))))))"
proof -
  let ?s0 = "handleSubmit s"
  from assms have s0: "isSubmitting ?s0" "pending ?s0 = [newReview s]" "reviews ?s0 = reviews s"
    by (simp_all add: handleSubmit_def Let_def)
  have later: "reviews (handleSubmit_resume t_id t_date s1)
                 = commit (newReview s) t_id t_date # reviews s"
    if "list_all (\<lambda>e. \<not> is_Resume e) es" and "run es ?s0 = Some s1" for es s1
  proof -
    from suspended_kept [OF s0(1,2) that(2,1)]
    have "pending s1 = [newReview s]" and "reviews s1 = reviews ?s0" by simp_all
    with s0(3) show ?thesis by (simp add: handleSubmit_resume_def commit_def)
  qed
  have now: "reviews (handleSubmit_resume t_id t_date ?s0)
               = commit (newReview s) t_id t_date # reviews s"
    using later [of "[]" ?s0] by simp
  have p: "pending (handleSubmit_resume t_id t_date ?s0) = []"
    using s0 by (simp add: handleSubmit_resume_def)
  have ids: "distinct (map id_review (reviews (handleSubmit_resume t_id t_date ?s0)))
             \<and> (\<forall>r \<in> set (reviews s).
                   id_review r < id_review (hd (reviews (handleSubmit_resume t_id t_date ?s0))))"
    if "distinct (map id_review (reviews s))" and "\<forall>r \<in> set (reviews s). id_review r < t_id"
    using that unfolding now by (auto simp add: commit_def)
  from later now p ids show ?thesis by simp blast
qed

theorem addReview_commits_witness:
  "reviews (handleSubmit_resume 1700000000000 1700000000000
      (handleSubmit (initial\<lparr>reviews := [], showForm := True, newReview := alice\<rparr>)))
     = [\<lparr>name = js ''Alice'', rating = 4, comment = js ''Great product overall'',
         id_review = 1700000000000, date = 19675\<rparr>]
   \<and> length (reviews (handleSubmit_resume 1700000000000 1700000000000
      (handleSubmit (initial\<lparr>reviews := [], showForm := True, newReview := alice\<rparr>)))) = 1
   \<and> distinct (map id_review (reviews (handleSubmit_resume 1700000000000 1700000000000
      (handleSubmit (initial\<lparr>reviews := [], showForm := True, newReview := alice\<rparr>)))))
   \<and> reviews (handleSubmit_resume 1700000000000 1700000000000
      (handleFormToggle (handleClick True (Some handleRatingChange) 2
        (handleSubmit (initial\<lparr>reviews := [], showForm := True, newReview := alice\<rparr>)))))
     = [\<lparr>name = js ''Alice'', rating = 4, comment = js ''Great product overall'',
         id_review = 1700000000000, date = 19675\<rparr>]"
proof -
  let ?s = "initial\<lparr>reviews := [], showForm := True, newReview := alice\<rparr>"
  let ?s1 = "handleFormToggle (handleClick True (Some handleRatingChange) 2 (handleSubmit ?s))"
  have ok: "validateForm_ok (newReview ?s)"
    by (simp add: alice_ok)
  have p: "pending ?s = []" by (simp add: initial_def)
  have e: "reviews ?s = []" "newReview ?s = alice" by simp_all
  have r: "list_all (\<lambda>e. \<not> is_Resume e) [StarClick FormStars 2, Toggle]
           \<and> run [StarClick FormStars 2, Toggle] (handleSubmit ?s) = Some ?s1"
    by code_simp
  from addReview_commits [OF ok p, of 1700000000000 1700000000000] r
  have "reviews (handleSubmit_resume 1700000000000 1700000000000 ?s1)
          = commit (newReview ?s) 1700000000000 1700000000000 # reviews ?s"
    by blast
  with addReview_commits [OF ok p, of 1700000000000 1700000000000] show ?thesis
    unfolding e by (simp add: commit_def alice_def todayUTC_def)
qed

text \<open>
  Ids are neither unique nor increasing in general: the same user submitting twice gets
  two reviews with one id when the clock reads the same at both commits, and a later
  review with a smaller id when the clock was set back in between.
\<close>

theorem addReview_id_counterexample:
  "map_option (\<lambda>s. map id_review (reviews s))
     (run (submitting @ [Resume 1700000000000 1700000000000]
           @ submitting @ [Resume 1700000000000 1700000000000]) initial)
     = Some [1700000000000, 1700000000000, 1, 2]
   \<and> map_option (\<lambda>s. distinct (map id_review (reviews s)))
     (run (submitting @ [Resume 1700000000000 1700000000000]
           @ submitting @ [Resume 1700000000000 1700000000000]) initial)
     = Some False
   \<and> map_option (\<lambda>s. map id_review (reviews s))
     (run (submitting @ [Resume 1700000000000 1700000000000]
           @ submitting @ [Resume 1699999990000 1699999990000]) initial)
     = Some [1699999990000, 1700000000000, 1, 2]
   \<and> map_option (\<lambda>s. id_review (reviews s ! 1) < id_review (reviews s ! 0))
     (run (submitting @ [Resume 1700000000000 1700000000000]
           @ submitting @ [Resume 1699999990000 1699999990000]) initial)
     = Some False"
  by code_simp

section \<open>Clearing errors\<close>

text \<open>
  C7. Clicking a star of the form's widget, or editing a text field, changes the error
  map at that field's key only: every other key keeps its entry, and the field's own
  entry is afterwards not an error (it is the empty string or absent).
\<close>

theorem clearing_is_per_field:
  "(k \<noteq> ''rating'' \<longrightarrow>
      map_of (formErrors (handleClick True (Some handleRatingChange) v s)) k
        = map_of (formErrors s) k)
   \<and> \<not> truthy (map_of (formErrors (handleClick True (Some handleRatingChange) v s)) ''rating'')
   \<and> (k \<noteq> n \<longrightarrow>
      map_of (formErrors (handleInputChange (n, x) s)) k = map_of (formErrors s) k)
   \<and> \<not> truthy (map_of (formErrors (handleInputChange (n, x) s)) n)"
  by (simp add: handleClick_def handleRatingChange_def handleInputChange_def Let_def
      update_conv' truthy_def)

theorem clearing_is_per_field_witness:
  "truthy (map_of (formErrors all_invalid) ''rating'')
   \<and> truthy (map_of (formErrors all_invalid) ''name'')
   \<and> truthy (map_of (formErrors all_invalid) ''comment'')
   \<and> map_of (formErrors (handleClick True (Some handleRatingChange) 3 all_invalid)) ''name''
       = Some ''Name is required''
   \<and> map_of (formErrors (handleClick True (Some handleRatingChange) 3 all_invalid)) ''comment''
       = Some ''Review must be at least 10 characters long''
   \<and> \<not> truthy (map_of (formErrors (handleClick True (Some handleRatingChange) 3 all_invalid))
          ''rating'')
   \<and> map_of (formErrors (handleInputChange (''name'', js ''A'') all_invalid)) ''rating''
       = Some ''Please select a rating''
   \<and> \<not> truthy (map_of (formErrors (handleInputChange (''name'', js ''A'') all_invalid)) ''name'')"
proof -
  have e: "formErrors all_invalid =
      [(''name'', ''Name is required''), (''rating'', ''Please select a rating''),
       (''comment'', ''Review must be at least 10 characters long'')]"
    by code_simp
  have n: "''name'' \<noteq> ''rating''" and c: "''comment'' \<noteq> ''rating''"
    and r: "''rating'' \<noteq> ''name''" by simp_all
  from clearing_is_per_field [of "''name''" 3 all_invalid "''name''" "js ''A''"] n
  have 1: "map_of (formErrors (handleClick True (Some handleRatingChange) 3 all_invalid)) ''name''
        = map_of (formErrors all_invalid) ''name''"
    and 2: "\<not> truthy (map_of (formErrors (handleClick True (Some handleRatingChange) 3 all_invalid))
          ''rating'')"
    and 3: "\<not> truthy (map_of (formErrors (handleInputChange (''name'', js ''A'') all_invalid)) ''name'')"
    by blast+
  from clearing_is_per_field [of "''comment''" 3 all_invalid "''name''" "js ''A''"] c
  have 4: "map_of (formErrors (handleClick True (Some handleRatingChange) 3 all_invalid)) ''comment''
        = map_of (formErrors all_invalid) ''comment''"
    by blast
  from clearing_is_per_field [of "''rating''" 3 all_invalid "''name''" "js ''A''"] r
  have 5: "map_of (formErrors (handleInputChange (''name'', js ''A'') all_invalid)) ''rating''
        = map_of (formErrors all_invalid) ''rating''"
    by blast
  show ?thesis
    unfolding 1 4 5 using 2 3 by (simp add: e truthy_def)
qed

section \<open>Invariants of the event loop\<close>

lemma committed_ok_draft:
  "validateForm_ok d \<Longrightarrow> 0 \<le> rating d \<Longrightarrow> rating d \<le> 5 \<Longrightarrow> committed_ok d"
  by (auto simp add: validateForm_ok_iff committed_ok_def)

lemma store_ok_step: "store_ok s \<Longrightarrow> well_formed e \<Longrightarrow> store_ok (dispatch e s)"
proof (cases e)
  case (Change n v)
  then show "store_ok s \<Longrightarrow> well_formed e \<Longrightarrow> store_ok (dispatch e s)"
    by (auto simp add: store_ok_def handleInputChange_def set_property_def Let_def)
next
  case (StarClick w v)
  then show "store_ok s \<Longrightarrow> well_formed e \<Longrightarrow> store_ok (dispatch e s)"
    by (auto simp add: store_ok_def handler_defs well_formed_def Let_def)
next
  case Submit
  then show "store_ok s \<Longrightarrow> well_formed e \<Longrightarrow> store_ok (dispatch e s)"
    by (auto simp add: store_ok_def handleSubmit_def Let_def intro: committed_ok_draft)
next
  case (Resume t1 t2)
  then show "store_ok s \<Longrightarrow> well_formed e \<Longrightarrow> store_ok (dispatch e s)"
    by (auto simp add: store_ok_def handleSubmit_resume_def emptyReview_def committed_ok_def
        split: list.splits)
qed (auto simp add: store_ok_def handler_defs Let_def emptyReview_def)

lemma store_ok_handle_all:
  "store_ok s \<Longrightarrow> list_all well_formed es \<Longrightarrow> store_ok (handle_all es s)"
  by (induction es arbitrary: s) (auto intro: store_ok_step)

lemma enabled_well_formed: "enabled s e \<Longrightarrow> well_formed e"
  by (cases e) (auto simp add: well_formed_def)

lemma run_handle_all:
  "run es s = Some s' \<Longrightarrow> s' = handle_all es s \<and> list_all well_formed es"
  by (induction es arbitrary: s) (auto split: if_splits intro: enabled_well_formed)

lemma single_flight_step: "single_flight s \<Longrightarrow> enabled s e \<Longrightarrow> single_flight (dispatch e s)"
  by (cases e) (auto simp add: single_flight_def handler_defs Let_def split: list.splits)

lemma single_flight_run: "single_flight s \<Longrightarrow> run es s = Some s' \<Longrightarrow> single_flight s'"
  by (induction es arbitrary: s) (auto split: if_splits intro: single_flight_step)

lemma closed_is_reset_step:
  "closed_is_reset s \<Longrightarrow> enabled s e \<Longrightarrow> closed_is_reset (dispatch e s)"
  by (cases e) (auto simp add: closed_is_reset_def handler_defs Let_def split: list.splits)

lemma closed_is_reset_run: "closed_is_reset s \<Longrightarrow> run es s = Some s' \<Longrightarrow> closed_is_reset s'"
  by (induction es arbitrary: s) (auto split: if_splits intro: closed_is_reset_step)

text \<open>
  C8. Every review in the list has a rating in 1..5, a comment of trimmed length at least
  10 and a non-empty trimmed name, after every sequence of handler calls with
  arguments the page can pass, in any order, and so after every sequence of events the
  page can deliver; from any state whose reviews are so, whose draft has a rating in
  0..5 and whose suspended submissions, if any, passed validation with such a rating.
  The validation only excludes the rating 0; the upper bound comes from the five stars.
\<close>

theorem committed_reviews_invariant:
  assumes "list_all committed_ok (reviews s)"
    and "list_all committed_ok (pending s)"
    and "0 \<le> rating (newReview s)" and "rating (newReview s) \<le> 5"
    and "list_all well_formed es"
  shows "list_all committed_ok (reviews (handle_all es s))
         \<and> (\<forall>es' s'. run es' s = Some s' \<longrightarrow> list_all committed_ok (reviews s'))"
proof -
  from assms have ok: "store_ok s" by (simp add: store_ok_def)
  then have "store_ok (handle_all es s)"
    using assms(5) by (rule store_ok_handle_all)
  moreover have "store_ok s'" if "run es' s = Some s'" for es' s'
    using run_handle_all [OF that] store_ok_handle_all [OF ok, of es'] by simp
  ultimately show ?thesis by (simp add: store_ok_def)
qed

theorem committed_reviews_invariant_witness:
  "list_all committed_ok (reviews initial)
   \<and> list_all well_formed session
   \<and> list_all committed_ok (commit alice 1700000000000 1700000000000 # reviews initial)"
proof -
  have 1: "list_all committed_ok (reviews initial)" by code_simp
  have 2: "list_all committed_ok (pending initial)" by (simp add: initial_def)
  have 3: "0 \<le> rating (newReview initial)" and 4: "rating (newReview initial) \<le> 5"
    by (simp_all add: initial_def emptyReview_def)
  have 5: "list_all well_formed session" by code_simp
  from committed_reviews_invariant [OF 1 2 3 4 5] run_session
  have "list_all committed_ok
          (reviews (initial\<lparr>reviews := commit alice 1700000000000 1700000000000 # reviews initial,
             reviewCount := 3\<rparr>))"
    by blast
  with 1 5 show ?thesis by simp
qed

text \<open>
  C9, as the code has it. \<open>handleSubmit\<close> does not test \<open>isSubmitting\<close>; what keeps a
  second submission from starting is the \<open>disabled\<close> attribute of the submit button and
  of the inputs. Along every sequence of events the page can deliver, \<open>isSubmitting\<close> is
  set exactly while a submission is suspended, at most one is suspended, and while it
  is the page delivers no submit event.
\<close>

theorem single_submission_in_flight:
  assumes "isSubmitting s \<longleftrightarrow> pending s \<noteq> []" and "length (pending s) \<le> 1"
    and "run es s = Some s'"
  shows "(isSubmitting s' \<longleftrightarrow> pending s' \<noteq> [])
         \<and> length (pending s') \<le> 1
         \<and> (isSubmitting s' \<longrightarrow> \<not> enabled s' Submit \<and> run (es @ [Submit]) s = None)"
proof -
  from assms have "single_flight s" by (simp add: single_flight_def)
  with assms(3) have sf: "single_flight s'" by (rule single_flight_run [rotated])
  from assms(3) have "run (es @ [Submit]) s
      = (if enabled s' Submit then Some (dispatch Submit s') else None)"
    by (rule run_snoc)
  with sf show ?thesis by (simp add: single_flight_def)
qed

theorem single_submission_in_flight_witness:
  "\<not> isSubmitting initial \<and> pending initial = []
   \<and> run submitting initial = Some in_flight
   \<and> isSubmitting in_flight
   \<and> run (submitting @ [Submit]) initial = None"
proof -
  have 1: "isSubmitting initial \<longleftrightarrow> pending initial \<noteq> []"
    and 2: "length (pending initial) \<le> 1"
    by (simp_all add: initial_def)
  have 3: "isSubmitting in_flight" by (simp add: in_flight_def)
  from single_submission_in_flight [OF 1 2 run_submitting] 3
  have "run (submitting @ [Submit]) initial = None" by simp
  with 3 show ?thesis by (simp add: run_submitting) (simp add: initial_def)
qed

text \<open>
  The handler itself, called in a state where a submission is suspended, validates
  again and suspends a second one; both commit.
\<close>

theorem handleSubmit_unguarded_counterexample:
  "isSubmitting in_flight
   \<and> pending in_flight = [alice]
   \<and> pending (handleSubmit in_flight) = [alice, alice]
   \<and> length (reviews (handleSubmit_resume 1700000001000 1700000001000
        (handleSubmit_resume 1700000000000 1700000000000 (handleSubmit in_flight))))
      = length (reviews in_flight) + 2"
  by code_simp

text \<open>
  C10. While the form is closed the draft is the empty draft and the error map is empty:
  it is so initially and stays so along every sequence of events the page can deliver,
  so the toggle that opens the form opens it on an empty draft without errors.
\<close>

theorem closed_form_is_reset:
  assumes "showForm s \<or> (newReview s = emptyReview \<and> formErrors s = [])"
    and "run es s = Some s'"
  shows "(showForm initial \<or> (newReview initial = emptyReview \<and> formErrors initial = []))
         \<and> (showForm s' \<or> (newReview s' = emptyReview \<and> formErrors s' = []))
         \<and> (showForm s' \<or>
              (showForm (handleFormToggle s') \<and> newReview (handleFormToggle s') = emptyReview
               \<and> formErrors (handleFormToggle s') = []))"
proof -
  from assms have "closed_is_reset s'"
    using closed_is_reset_run [of s es s'] by (simp add: closed_is_reset_def)
  then show ?thesis
    by (auto simp add: closed_is_reset_def initial_def handleFormToggle_def Let_def)
qed

theorem closed_form_is_reset_witness:
  "\<not> showForm initial
   \<and> run abandoned initial = Some initial
   \<and> newReview initial = emptyReview \<and> formErrors initial = []
   \<and> showForm (handleFormToggle initial)
   \<and> newReview (handleFormToggle initial) = emptyReview
   \<and> formErrors (handleFormToggle initial) = []"
proof -
  have c: "\<not> showForm initial" by (simp add: initial_def)
  have "showForm initial \<or> (newReview initial = emptyReview \<and> formErrors initial = [])"
    by (simp add: initial_def)
  from closed_form_is_reset [OF this run_abandoned] c show ?thesis
    by (simp add: run_abandoned)
qed

section \<open>The star widget's display\<close>

text \<open>
  C6. The widget shows five stars, and the star at position \<open>p\<close> of 1..5 is filled
  exactly when \<open>p\<close> is at most the hovered value if there is one (it is not 0) and at
  most the rating otherwise; its \<open>interactive\<close> class is the widget's prop. The display
  depends on nothing else.
\<close>

theorem StarRating_filled:
  "length (StarRating r i h) = 5
   \<and> (\<forall>p \<in> {1..5}. fst (StarRating r i h ! nat (p - 1)) = (p \<le> (if h \<noteq> 0 then h else r)))
   \<and> (\<forall>p \<in> {1..5}. snd (StarRating r i h ! nat (p - 1)) = i)"
proof -
  have pos: "fst (StarRating r i h ! nat (p - 1)) = (p \<le> (if h \<noteq> 0 then h else r))
             \<and> snd (StarRating r i h ! nat (p - 1)) = i" if "p \<in> {1..5}" for p :: int
  proof -
    from that have "p = 1 \<or> p = 2 \<or> p = 3 \<or> p = 4 \<or> p = 5"
      by (simp add: atLeastAtMost_iff) presburger
    then consider "p = 1" | "p = 2" | "p = 3" | "p = 4" | "p = 5"
      by blast
    then show ?thesis
      by cases (simp_all add: StarRating_def js_or_def)
  qed
  have "length (StarRating r i h) = 5" by (simp add: StarRating_def)
  with pos show ?thesis by blast
qed

theorem StarRating_filled_witness:
  "length (StarRating 3 True 0) = 5
   \<and> fst (StarRating 3 True 0 ! 2) \<and> \<not> fst (StarRating 3 True 0 ! 3)
   \<and> fst (StarRating 3 True 5 ! 3) \<and> \<not> fst (StarRating 3 True 2 ! 2)"
proof -
  have m: "(3::int) \<in> {1..5}" "(4::int) \<in> {1..5}" by simp_all
  from StarRating_filled [of 3 True 0] m
  have a: "length (StarRating 3 True 0) = 5"
    and b: "fst (StarRating 3 True 0 ! nat (3 - 1)) = (3 \<le> (if (0::int) \<noteq> 0 then 0 else (3::int)))"
    and c: "fst (StarRating 3 True 0 ! nat (4 - 1)) = (4 \<le> (if (0::int) \<noteq> 0 then 0 else (3::int)))"
    by blast+
  from StarRating_filled [of 3 True 5] m
  have d: "fst (StarRating 3 True 5 ! nat (4 - 1)) = (4 \<le> (if (5::int) \<noteq> 0 then 5 else (3::int)))"
    by blast
  from StarRating_filled [of 3 True 2] m
  have e: "fst (StarRating 3 True 2 ! nat (3 - 1)) = (3 \<le> (if (2::int) \<noteq> 0 then 2 else (3::int)))"
    by blast
  have n: "nat (3 - 1) = 2" "nat (4 - 1) = 3" by simp_all
  from a b c d e show ?thesis unfolding n by simp
qed

text \<open>Only an interactive widget takes a hover, and loses it when the pointer leaves.\<close>

lemma hover:
  "handleMouseEnter False v h = h" "handleMouseLeave False h = h"
  "handleMouseEnter True v h = v" "handleMouseLeave True h = 0"
  by (simp_all add: handleMouseEnter_def handleMouseLeave_def)

section \<open>The sorted and filtered view\<close>

lemma compare_reviews_rating:
  "compare_reviews ''rating'' a b \<le> 0 \<longleftrightarrow> rating_desc_date_desc a b"
  by (auto simp add: compare_reviews_def js_or_def Date_value_def rating_desc_date_desc_def)

lemma compare_reviews_date:
  "k \<noteq> ''rating'' \<Longrightarrow> compare_reviews k a b \<le> 0 \<longleftrightarrow> date_desc a b"
  by (auto simp add: compare_reviews_def Date_value_def date_desc_def)

lemma set_insert_by: "set (insert_by cmp x xs) = insert x (set xs)"
  by (induction xs) auto

lemma mset_insert_by: "mset (insert_by cmp x xs) = add_mset x (mset xs)"
  by (induction xs) auto

lemma sort_by_Nil: "sort_by cmp [] = []"
  by (simp add: sort_by_def)

lemma sort_by_Cons: "sort_by cmp (x # xs) = insert_by cmp x (sort_by cmp xs)"
  by (simp add: sort_by_def)

lemma mset_sort_by: "mset (sort_by cmp xs) = mset xs"
  by (induction xs) (simp_all add: sort_by_Nil sort_by_Cons mset_insert_by)

lemma sorted_insert_by:
  assumes total: "\<And>x y. \<not> cmp x y \<le> 0 \<Longrightarrow> cmp y x \<le> 0"
    and trans: "\<And>x y z. cmp x y \<le> 0 \<Longrightarrow> cmp y z \<le> 0 \<Longrightarrow> cmp x z \<le> 0"
    and "sorted_wrt (\<lambda>a b. cmp a b \<le> 0) xs"
  shows "sorted_wrt (\<lambda>a b. cmp a b \<le> 0) (insert_by cmp x xs)"
  using assms(3)
proof (induction xs)
  case Nil
  then show ?case by simp
next
  case (Cons y ys)
  show ?case
  proof (cases "cmp x y \<le> 0")
    case True
    with Cons.prems show ?thesis by (auto intro: trans)
  next
    case False
    then have "cmp y x \<le> 0" by (rule total)
    with False Cons show ?thesis by (auto simp add: set_insert_by)
  qed
qed

lemma sorted_sort_by:
  assumes "\<And>x y. \<not> cmp x y \<le> 0 \<Longrightarrow> cmp y x \<le> 0"
    and "\<And>x y z. cmp x y \<le> 0 \<Longrightarrow> cmp y z \<le> 0 \<Longrightarrow> cmp x z \<le> 0"
  shows "sorted_wrt (\<lambda>a b. cmp a b \<le> 0) (sort_by cmp xs)"
proof (induction xs)
  case Nil
  then show ?case by (simp add: sort_by_def)
next
  case (Cons x xs)
  have "sort_by cmp (x # xs) = insert_by cmp x (sort_by cmp xs)"
    by (simp add: sort_by_def)
  with Cons show ?case using sorted_insert_by [of cmp, OF assms] by simp
qed

lemma filter_insert_by:
  assumes trans: "\<And>x y z. cmp x y \<le> 0 \<Longrightarrow> cmp y z \<le> 0 \<Longrightarrow> cmp x z \<le> 0"
    and "sorted_wrt (\<lambda>a b. cmp a b \<le> 0) ys"
  shows "filter P (insert_by cmp x ys) =
           (if P x then insert_by cmp x (filter P ys) else filter P ys)"
  using assms(2)
proof (induction ys)
  case Nil
  then show ?case by simp
next
  case (Cons y ys)
  show ?case
  proof (cases "cmp x y \<le> 0")
    case True
    have front: "insert_by cmp x zs = x # zs" if "set zs \<subseteq> set (y # ys)" for zs
    proof (cases zs)
      case Nil
      then show ?thesis by simp
    next
      case (Cons z zs')
      with that have "z = y \<or> z \<in> set ys" by auto
      with Cons.prems have "cmp y z \<le> 0 \<or> z = y" by auto
      with True have "cmp x z \<le> 0" by (auto intro: trans)
      with Cons show ?thesis by simp
    qed
    have "set (filter P (y # ys)) \<subseteq> set (y # ys)" by auto
    then have "insert_by cmp x (filter P (y # ys)) = x # filter P (y # ys)"
      by (rule front)
    with True show ?thesis by simp
  next
    case False
    with Cons show ?thesis by auto
  qed
qed

lemma filter_sort_by:
  assumes "\<And>x y. \<not> cmp x y \<le> 0 \<Longrightarrow> cmp y x \<le> 0"
    and "\<And>x y z. cmp x y \<le> 0 \<Longrightarrow> cmp y z \<le> 0 \<Longrightarrow> cmp x z \<le> 0"
  shows "filter P (sort_by cmp xs) = sort_by cmp (filter P xs)"
proof (induction xs)
  case Nil
  then show ?case by (simp add: sort_by_def)
next
  case (Cons x xs)
  have "filter P (sort_by cmp (x # xs)) = filter P (insert_by cmp x (sort_by cmp xs))"
    by (simp add: sort_by_def)
  also have "\<dots> = (if P x then insert_by cmp x (filter P (sort_by cmp xs))
                    else filter P (sort_by cmp xs))"
    by (rule filter_insert_by [OF assms(2) sorted_sort_by [OF assms]])
  also have "\<dots> = sort_by cmp (filter P (x # xs))"
    by (simp add: Cons.IH sort_by_Cons)
  finally show ?case .
qed

lemma compare_reviews_total:
  "\<not> compare_reviews k x y \<le> 0 \<Longrightarrow> compare_reviews k y x \<le> 0"
  by (auto simp add: compare_reviews_def js_or_def Date_value_def split: if_splits)

lemma compare_reviews_trans:
  "compare_reviews k x y \<le> 0 \<Longrightarrow> compare_reviews k y z \<le> 0 \<Longrightarrow> compare_reviews k x z \<le> 0"
  by (auto simp add: compare_reviews_def js_or_def Date_value_def split: if_splits)

lemma sorted_compare_reviews:
  "sorted_wrt (\<lambda>a b. compare_reviews k a b \<le> 0) (sortedAndFilteredReviews k f xs)"
  unfolding sortedAndFilteredReviews_def
  by (rule sorted_sort_by) (erule compare_reviews_total, erule compare_reviews_trans)

text \<open>
  The sorted list is the only rearrangement that is ordered by the comparator and keeps
  tied elements in their order, so it is the result of \<open>sort\<close> whatever algorithm the
  engine runs.
\<close>

lemma insert_by_front:
  assumes "\<And>y. y \<in> set ys \<Longrightarrow> cmp x y \<le> 0"
  shows "insert_by cmp x ys = x # ys"
  using assms by (cases ys) simp_all

lemma sort_by_tied:
  assumes "\<And>x y. x \<in> set xs \<Longrightarrow> y \<in> set xs \<Longrightarrow> cmp x y \<le> 0"
  shows "sort_by cmp xs = xs"
  using assms
proof (induction xs)
  case Nil
  then show ?case by (simp add: sort_by_Nil)
next
  case (Cons x xs)
  then have "sort_by cmp xs = xs" by simp
  moreover have "insert_by cmp x xs = x # xs"
    using Cons.prems by (intro insert_by_front) simp
  ultimately show ?case by (simp add: sort_by_Cons)
qed

lemma sort_by_stable:
  assumes total: "\<And>x y. \<not> cmp x y \<le> 0 \<Longrightarrow> cmp y x \<le> 0"
    and trans: "\<And>x y z. cmp x y \<le> 0 \<Longrightarrow> cmp y z \<le> 0 \<Longrightarrow> cmp x z \<le> 0"
  shows "filter (tied cmp x) (sort_by cmp xs) = filter (tied cmp x) xs"
proof -
  have "filter (tied cmp x) (sort_by cmp xs) = sort_by cmp (filter (tied cmp x) xs)"
    using assms by (rule filter_sort_by)
  also have "\<dots> = filter (tied cmp x) xs"
  proof (rule sort_by_tied)
    fix a b
    assume "a \<in> set (filter (tied cmp x) xs)" and "b \<in> set (filter (tied cmp x) xs)"
    then have "cmp a x \<le> 0" and "cmp x b \<le> 0" by (simp_all add: tied_def)
    then show "cmp a b \<le> 0" by (rule trans)
  qed
  finally show ?thesis .
qed

lemma stable_sorted_unique:
  assumes total: "\<And>x y. \<not> cmp x y \<le> 0 \<Longrightarrow> cmp y x \<le> 0"
    and trans: "\<And>x y z. cmp x y \<le> 0 \<Longrightarrow> cmp y z \<le> 0 \<Longrightarrow> cmp x z \<le> 0"
    and "sorted_wrt (\<lambda>a b. cmp a b \<le> 0) ys" and "sorted_wrt (\<lambda>a b. cmp a b \<le> 0) zs"
    and "\<And>x. filter (tied cmp x) ys = filter (tied cmp x) zs"
  shows "ys = zs"
  using assms(3-)
proof (induction ys arbitrary: zs)
  case Nil
  have "z \<notin> set zs" for z
  proof
    assume "z \<in> set zs"
    moreover have "tied cmp z z" using total [of z z] by (auto simp add: tied_def)
    ultimately have "filter (tied cmp z) zs \<noteq> []" by (auto simp add: filter_empty_conv)
    with Nil.prems(3) [of z] show False by simp
  qed
  then show ?case by (cases zs) auto
next
  case (Cons y ys)
  have refl: "tied cmp a a" for a using total [of a a] by (auto simp add: tied_def)
  from Cons.prems(3) [of y] refl [of y]
  have fy: "filter (tied cmp y) zs = y # filter (tied cmp y) ys" by simp
  then obtain z zs' where zs: "zs = z # zs'" by (cases zs) auto
  from fy have "y \<in> set (filter (tied cmp y) zs)" by simp
  then have yin: "y \<in> set zs" by simp
  have "tied cmp y z"
  proof (cases "y = z")
    case True
    then show ?thesis by (simp add: refl)
  next
    case False
    with yin zs have "y \<in> set zs'" by simp
    with Cons.prems(2) zs have zy: "cmp z y \<le> 0" by simp
    from Cons.prems(3) [of z] refl [of z] zs
    have "z \<in> set (filter (tied cmp z) (y # ys))" by simp
    then have "z \<in> set (y # ys)" by (simp only: set_filter) blast
    with False have "z \<in> set ys" by simp
    with Cons.prems(1) have "cmp y z \<le> 0" by simp
    with zy show ?thesis by (simp add: tied_def)
  qed
  with fy zs have yz: "y = z" by simp
  have "ys = zs'"
  proof (rule Cons.IH)
    show "sorted_wrt (\<lambda>a b. cmp a b \<le> 0) ys" using Cons.prems(1) by simp
    show "sorted_wrt (\<lambda>a b. cmp a b \<le> 0) zs'" using Cons.prems(2) zs by simp
    show "filter (tied cmp x) ys = filter (tied cmp x) zs'" for x
      using Cons.prems(3) [of x] zs yz by (simp split: if_splits)
  qed
  with zs yz show ?case by simp
qed

lemma sort_by_unique:
  assumes total: "\<And>x y. \<not> cmp x y \<le> 0 \<Longrightarrow> cmp y x \<le> 0"
    and trans: "\<And>x y z. cmp x y \<le> 0 \<Longrightarrow> cmp y z \<le> 0 \<Longrightarrow> cmp x z \<le> 0"
    and "sorted_wrt (\<lambda>a b. cmp a b \<le> 0) ys"
    and "\<And>x. filter (tied cmp x) ys = filter (tied cmp x) xs"
  shows "ys = sort_by cmp xs"
proof (rule stable_sorted_unique [of cmp, OF total trans assms(3)])
  show "sorted_wrt (\<lambda>a b. cmp a b \<le> 0) (sort_by cmp xs)"
    using total trans by (rule sorted_sort_by)
  show "filter (tied cmp x) ys = filter (tied cmp x) (sort_by cmp xs)" for x
    using assms(4) [of x] sort_by_stable [of cmp x xs, OF total trans] by simp
qed

lemma sorted_view_unique:
  assumes "sorted_wrt (\<lambda>a b. compare_reviews k a b \<le> 0) ys"
    and "\<And>x. filter (tied (compare_reviews k) x) ys = filter (tied (compare_reviews k) x) xs"
  shows "ys = sort_by (compare_reviews k) xs"
  using compare_reviews_total compare_reviews_trans assms
  by (rule sort_by_unique [of "compare_reviews k"])

lemma listReviews_pure:
  assumes "r < length h"
  shows "listReviews k f r h =
           (length h, h @ [sortedAndFilteredReviews k f (h ! r)])"
  using assms
  by (simp add: listReviews_def array_filter_def array_sort_def sortedAndFilteredReviews_def
      nth_append)

lemma example_order:
  assumes "d2 < d3"
  shows "sortedAndFilteredReviews ''rating'' 0
           [a\<lparr>rating := 3, date := d1\<rparr>, b\<lparr>rating := 5, date := d2\<rparr>, c\<lparr>rating := 5, date := d3\<rparr>]
         = [c\<lparr>rating := 5, date := d3\<rparr>, b\<lparr>rating := 5, date := d2\<rparr>, a\<lparr>rating := 3, date := d1\<rparr>]"
  using assms
  by (simp add: sortedAndFilteredReviews_def sort_by_Cons sort_by_Nil compare_reviews_def
      js_or_def Date_value_def)

lemma filter_then_sort:
  "sortedAndFilteredReviews k f xs =
     filter (\<lambda>review. f = 0 \<or> rating review = f) (sortedAndFilteredReviews k 0 xs)"
proof -
  have "filter (\<lambda>review. f = 0 \<or> rating review = f) (sort_by (compare_reviews k) xs)
        = sort_by (compare_reviews k) (filter (\<lambda>review. f = 0 \<or> rating review = f) xs)"
    by (rule filter_sort_by) (erule compare_reviews_total, erule compare_reviews_trans)
  then show ?thesis by (simp add: sortedAndFilteredReviews_def)
qed

lemma sorted_by_rating:
  "sorted_wrt rating_desc_date_desc (sortedAndFilteredReviews ''rating'' f xs)"
  using sorted_compare_reviews [of "''rating''" f xs]
  by (simp add: compare_reviews_rating [abs_def])

lemma sorted_by_date:
  "k \<noteq> ''rating'' \<Longrightarrow> sorted_wrt date_desc (sortedAndFilteredReviews k f xs)"
proof -
  assume "k \<noteq> ''rating''"
  then have "(\<lambda>a b. compare_reviews k a b \<le> 0) = date_desc"
    by (intro ext) (simp add: compare_reviews_date)
  with sorted_compare_reviews [of k f xs] show ?thesis by simp
qed

text \<open>
  C5. \<open>listReviews\<close> leaves the stored array, and every other array of the store, as it
  was, and returns a new one. That one holds the stored reviews when the filter is 0
  and otherwise exactly those whose rating is the filter, each as often as stored; it
  is the unfiltered view with the other ratings struck out, so the order among the kept
  reviews is that of the chosen sort. For the key \<open>rating\<close> it is ordered by
  rating, highest first, and within a rating by date, latest first; for any other key,
  \<open>date\<close> among them, by date, latest first. Three reviews rated 3, 5, 5 on days
  \<open>d1\<close>, \<open>d2 < d3\<close> come out as third, second, first.
\<close>

theorem listReviews_view:
  assumes "r < length h"
  shows "snd (listReviews k f r h) ! r = h ! r
    \<and> take (length h) (snd (listReviews k f r h)) = h
    \<and> fst (listReviews k f r h) \<noteq> r
    \<and> snd (listReviews k f r h) ! fst (listReviews k f r h) = sortedAndFilteredReviews k f (h ! r)
    \<and> mset (sortedAndFilteredReviews k f (h ! r))
        = mset (filter (\<lambda>review. f = 0 \<or> rating review = f) (h ! r))
    \<and> (f = 0 \<longrightarrow> mset (sortedAndFilteredReviews k f (h ! r)) = mset (h ! r))
    \<and> (f \<noteq> 0 \<longrightarrow> sortedAndFilteredReviews k f (h ! r)
          = filter (\<lambda>review. rating review = f) (sortedAndFilteredReviews k 0 (h ! r)))
    \<and> (k = ''rating'' \<longrightarrow>
          sorted_wrt rating_desc_date_desc (sortedAndFilteredReviews k f (h ! r)))
    \<and> (k \<noteq> ''rating'' \<longrightarrow> sorted_wrt date_desc (sortedAndFilteredReviews k f (h ! r)))
    \<and> (d2 < d3 \<longrightarrow>
          sortedAndFilteredReviews ''rating'' 0
            [a\<lparr>rating := 3, date := d1\<rparr>, b\<lparr>rating := 5, date := d2\<rparr>,
             c\<lparr>rating := 5, date := d3\<rparr>]
          = [c\<lparr>rating := 5, date := d3\<rparr>, b\<lparr>rating := 5, date := d2\<rparr>,
             a\<lparr>rating := 3, date := d1\<rparr>])"
proof -
  have 1: "listReviews k f r h = (length h, h @ [sortedAndFilteredReviews k f (h ! r)])"
    using assms by (rule listReviews_pure)
  have 2: "mset (sortedAndFilteredReviews k f (h ! r))
        = mset (filter (\<lambda>review. f = 0 \<or> rating review = f) (h ! r))"
    by (simp add: sortedAndFilteredReviews_def mset_sort_by)
  have 4: "f = 0 \<Longrightarrow> mset (sortedAndFilteredReviews k f (h ! r)) = mset (h ! r)"
    by (simp add: sortedAndFilteredReviews_def mset_sort_by)
  have 3: "f \<noteq> 0 \<Longrightarrow> sortedAndFilteredReviews k f (h ! r)
          = filter (\<lambda>review. rating review = f) (sortedAndFilteredReviews k 0 (h ! r))"
    using filter_then_sort [of k f "h ! r"] by simp
  show ?thesis
    unfolding 1 using assms 2 3 4
    by (simp add: nth_append sorted_by_rating sorted_by_date example_order)
qed

theorem listReviews_view_witness:
  "snd (listReviews ''rating'' 0 0 [shelf]) ! 0 = shelf
   \<and> fst (listReviews ''rating'' 0 0 [shelf]) = 1
   \<and> snd (listReviews ''rating'' 0 0 [shelf]) ! 1 = [entry 5 30, entry 5 20, entry 3 10]
   \<and> snd (listReviews ''date'' 5 0 [shelf]) ! 0 = shelf
   \<and> snd (listReviews ''date'' 5 0 [shelf]) ! fst (listReviews ''date'' 5 0 [shelf])
       = [entry 5 30, entry 5 20]"
proof -
  have r: "0 < length [shelf]" by simp
  have f: "fst (listReviews ''rating'' 0 0 [shelf]) = 1"
    using listReviews_pure [OF r, of "''rating''" 0] by simp
  have v1: "sortedAndFilteredReviews ''rating'' 0 shelf = [entry 5 30, entry 5 20, entry 3 10]"
    by code_simp
  have v2: "sortedAndFilteredReviews ''date'' 5 shelf = [entry 5 30, entry 5 20]"
    by code_simp
  from listReviews_view [OF r, of "''rating''" 0]
  have a: "snd (listReviews ''rating'' 0 0 [shelf]) ! 0 = [shelf] ! 0"
    and b: "snd (listReviews ''rating'' 0 0 [shelf]) ! fst (listReviews ''rating'' 0 0 [shelf])
              = sortedAndFilteredReviews ''rating'' 0 ([shelf] ! 0)"
    by blast+
  from listReviews_view [OF r, of "''date''" 5]
  have c: "snd (listReviews ''date'' 5 0 [shelf]) ! 0 = [shelf] ! 0"
    and d: "snd (listReviews ''date'' 5 0 [shelf]) ! fst (listReviews ''date'' 5 0 [shelf])
              = sortedAndFilteredReviews ''date'' 5 ([shelf] ! 0)"
    by blast+
  from a b c d show ?thesis by (simp add: f v1 v2)
qed

section \<open>The average is a nearest tenth\<close>

lemma pow2_powi: "pow2 k = 2 powi k"
  by (simp add: pow2_def power_int_def power_inverse inverse_eq_divide power_one_over)

lemma pow2_pos: "0 < pow2 k"
  by (simp add: pow2_def)

lemma pow2_add: "pow2 (i + j) = pow2 i * pow2 j"
  by (simp add: pow2_powi power_int_add)

lemma pow2_nat: "0 \<le> k \<Longrightarrow> pow2 k = 2 ^ nat k"
  by (simp add: pow2_def)

lemma binade_lower:
  assumes "0 < a" and "0 < b"
  shows "pow2 (binade a b) * of_int b \<le> of_int a"
proof (cases "pow2 (bitlen a - bitlen b) * of_int b \<le> of_int a")
  case True
  then show ?thesis by (simp add: binade_def)
next
  case False
  from assms have la: "1 \<le> bitlen a" and lb: "1 \<le> bitlen b"
    by (simp_all add: bitlen_ge_iff_power)
  from bitlen_bounds [OF assms(1)] have "2 ^ nat (bitlen a - 1) \<le> a" by simp
  then have "(of_int (2 ^ nat (bitlen a - 1)) :: rat) \<le> of_int a"
    by (simp only: of_int_le_iff)
  with la have a: "pow2 (bitlen a - 1) \<le> of_int a"
    by (simp add: pow2_nat)
  from bitlen_bounds [OF assms(2)] have "b < 2 ^ nat (bitlen b)" by simp
  then have "(of_int b :: rat) < of_int (2 ^ nat (bitlen b))"
    by (simp only: of_int_less_iff)
  with lb have b: "of_int b \<le> pow2 (bitlen b)"
    by (simp add: pow2_nat)
  have "pow2 (bitlen a - bitlen b - 1) * of_int b
          \<le> pow2 (bitlen a - bitlen b - 1) * pow2 (bitlen b)"
    using b pow2_pos [of "bitlen a - bitlen b - 1"] by (simp add: mult_left_mono)
  also have "\<dots> = pow2 (bitlen a - 1)"
    by (simp add: pow2_add [symmetric])
  also note a
  finally show ?thesis using False by (simp add: binade_def)
qed

lemma round_half_even_error: "\<bar>of_int (round_half_even x) - x\<bar> \<le> 1 / 2"
proof -
  have "of_int \<lfloor>x\<rfloor> \<le> x" and "x < of_int \<lfloor>x\<rfloor> + 1" by linarith+
  then show ?thesis
    by (auto simp add: round_half_even_def Let_def)
qed

lemma js_divide_pos_error:
  assumes "0 < a" and "0 < b"
  shows "\<bar>js_divide_pos a b - of_int a / of_int b\<bar> \<le> of_int a / of_int b / 2 ^ 53"
proof -
  define q :: rat where "q = of_int a / of_int b"
  define u where "u = pow2 (binade a b - 52)"
  define m where "m = round_half_even (q / u)"
  have u: "0 < u" by (simp add: u_def pow2_pos)
  have x: "js_divide_pos a b = of_int m * u"
    by (simp add: js_divide_pos_def m_def u_def q_def Let_def)
  have "\<bar>of_int m - q / u\<bar> \<le> 1 / 2"
    unfolding m_def by (rule round_half_even_error)
  then have "\<bar>of_int m - q / u\<bar> * u \<le> 1 / 2 * u"
    using u by (simp only: mult_right_mono less_imp_le)
  moreover have "\<bar>of_int m - q / u\<bar> * u = \<bar>of_int m * u - q\<bar>"
  proof -
    have "(of_int m - q / u) * u = of_int m * u - q"
      using u by (simp add: field_simps)
    then have "\<bar>of_int m * u - q\<bar> = \<bar>of_int m - q / u\<bar> * \<bar>u\<bar>"
      by (simp only: abs_mult [symmetric])
    with u show ?thesis by simp
  qed
  ultimately have 1: "\<bar>of_int m * u - q\<bar> \<le> u / 2" by simp
  have "pow2 (binade a b) * of_int b \<le> of_int a"
    using assms by (rule binade_lower)
  then have 2: "pow2 (binade a b) \<le> q"
    using assms(2) by (simp add: q_def pos_le_divide_eq)
  have "u = pow2 (binade a b + (- 52))" by (simp add: u_def)
  also have "\<dots> = pow2 (binade a b) * pow2 (- 52)" by (rule pow2_add)
  also have "pow2 (- 52) = 1 / 2 ^ 52" by (simp add: pow2_def)
  finally have "u / 2 = pow2 (binade a b) / 2 ^ 53" by simp
  also have "\<dots> \<le> q / 2 ^ 53" using 2 by (simp add: divide_right_mono)
  finally have "u / 2 \<le> q / 2 ^ 53" .
  with 1 show ?thesis unfolding x q_def by linarith
qed

text \<open>
  The quotient computed is a double of the binade of \<open>a / b\<close>: a significand of 53 bits
  times the unit in the last place.
\<close>

lemma binade_upper:
  assumes "0 < a" and "0 < b"
  shows "of_int a < pow2 (binade a b + 1) * of_int b"
proof (cases "pow2 (bitlen a - bitlen b) * of_int b \<le> of_int a")
  case False
  then show ?thesis by (simp add: binade_def)
next
  case True
  from assms have la: "1 \<le> bitlen a" and lb: "1 \<le> bitlen b"
    by (simp_all add: bitlen_ge_iff_power)
  from bitlen_bounds [OF assms(1)] have "a < 2 ^ nat (bitlen a)" by simp
  then have "(of_int a :: rat) < of_int (2 ^ nat (bitlen a))"
    by (simp only: of_int_less_iff)
  with la have a: "of_int a < pow2 (bitlen a)"
    by (simp add: pow2_nat)
  from bitlen_bounds [OF assms(2)] have "2 ^ nat (bitlen b - 1) \<le> b" by simp
  then have "(of_int (2 ^ nat (bitlen b - 1)) :: rat) \<le> of_int b"
    by (simp only: of_int_le_iff)
  with lb have b: "pow2 (bitlen b - 1) \<le> of_int b"
    by (simp add: pow2_nat)
  note a
  also have "pow2 (bitlen a) = pow2 (bitlen a - bitlen b + 1) * pow2 (bitlen b - 1)"
    by (simp add: pow2_add [symmetric])
  also have "\<dots> \<le> pow2 (bitlen a - bitlen b + 1) * of_int b"
    using b pow2_pos [of "bitlen a - bitlen b + 1"] by (simp add: mult_left_mono)
  finally show ?thesis using True by (simp add: binade_def)
qed

lemma round_half_even_mono: "x \<le> y \<Longrightarrow> round_half_even x \<le> round_half_even y"
proof -
  assume xy: "x \<le> y"
  then have f: "\<lfloor>x\<rfloor> \<le> \<lfloor>y\<rfloor>" by (rule floor_mono)
  have x: "of_int \<lfloor>x\<rfloor> \<le> x" "x < of_int \<lfloor>x\<rfloor> + 1"
    and y: "of_int \<lfloor>y\<rfloor> \<le> y" "y < of_int \<lfloor>y\<rfloor> + 1" by linarith+
  show ?thesis
  proof (cases "\<lfloor>x\<rfloor> = \<lfloor>y\<rfloor>")
    case True
    with xy show ?thesis by (auto simp add: round_half_even_def Let_def)
  next
    case False
    with f have "\<lfloor>x\<rfloor> + 1 \<le> \<lfloor>y\<rfloor>" by simp
    moreover have "round_half_even x \<le> \<lfloor>x\<rfloor> + 1"
      by (simp add: round_half_even_def Let_def)
    moreover have "\<lfloor>y\<rfloor> \<le> round_half_even y"
      by (simp add: round_half_even_def Let_def)
    ultimately show ?thesis by linarith
  qed
qed

lemma round_half_even_of_int: "round_half_even (of_int k) = k"
  by (simp add: round_half_even_def Let_def)

lemma js_divide_pos_is_double:
  assumes "0 < a" and "0 < b"
  shows "\<exists>m. js_divide_pos a b = of_int m * pow2 (binade a b - 52) \<and> 2 ^ 52 \<le> m \<and> m \<le> 2 ^ 53"
proof -
  define u where "u = pow2 (binade a b - 52)"
  define q :: rat where "q = of_int a / of_int b"
  define m where "m = round_half_even (q / u)"
  have u: "0 < u" by (simp add: u_def pow2_pos)
  have b: "(0 :: rat) < of_int b" using assms(2) by simp
  have "binade a b = binade a b - 52 + 52" by simp
  then have "pow2 (binade a b) = pow2 (binade a b - 52 + 52)" by (rule arg_cong)
  also have "\<dots> = u * 2 ^ 52" unfolding u_def pow2_add by (simp add: pow2_def)
  finally have e: "pow2 (binade a b) = u * 2 ^ 52" .
  have "binade a b + 1 = binade a b - 52 + 53" by simp
  then have "pow2 (binade a b + 1) = pow2 (binade a b - 52 + 53)" by (rule arg_cong)
  also have "\<dots> = u * 2 ^ 53" unfolding u_def pow2_add by (simp add: pow2_def)
  finally have e1: "pow2 (binade a b + 1) = u * 2 ^ 53" .
  from binade_lower [OF assms] have "u * 2 ^ 52 \<le> q"
    using b by (simp add: e q_def pos_le_divide_eq)
  then have lo: "of_int (2 ^ 52) \<le> q / u" using u by (simp add: pos_le_divide_eq mult.commute)
  from binade_upper [OF assms] have "q < u * 2 ^ 53"
    using b by (simp add: e1 q_def pos_divide_less_eq)
  then have hi: "q / u \<le> of_int (2 ^ 53)" using u by (simp add: pos_divide_le_eq mult.commute)
  from round_half_even_mono [OF lo] have 1: "2 ^ 52 \<le> m"
    unfolding m_def round_half_even_of_int .
  from round_half_even_mono [OF hi] have 2: "m \<le> 2 ^ 53"
    unfolding m_def round_half_even_of_int .
  have "js_divide_pos a b = of_int m * u"
    by (simp add: js_divide_pos_def m_def u_def q_def Let_def)
  with 1 2 show ?thesis unfolding u_def by blast
qed

lemma js_divide_error:
  assumes "0 \<le> a" and "0 < b"
  shows "\<bar>js_divide a b - of_int a / of_int b\<bar> \<le> of_int a / of_int b / 2 ^ 53"
proof (cases "a = 0")
  case True
  then show ?thesis by (simp add: js_divide_def)
next
  case False
  with assms have "0 < a" by simp
  then show ?thesis
    using js_divide_pos_error [OF _ assms(2), of a] by (simp add: js_divide_def)
qed

lemma tenths_nearest:
  assumes a: "0 \<le> a" and b: "0 < b" and small: "20 * a < 2 ^ 53"
  shows "\<bar>of_nat (tenths (js_divide a b)) - 10 * (of_int a / of_int b)\<bar> \<le> (1 / 2 :: rat)"
proof -
  define q :: rat where "q = of_int a / of_int b"
  define x where "x = js_divide a b"
  define N where "N = \<lfloor>x * 10 + 1 / 2\<rfloor>"
  have q0: "0 \<le> q" using a b by (simp add: q_def)
  have err: "\<bar>x - q\<bar> \<le> q / 2 ^ 53"
    unfolding x_def q_def using a b by (rule js_divide_error)
  have "q / 2 ^ 53 \<le> q" using q0 by (simp add: field_simps)
  with err have x0: "0 \<le> x" by linarith
  then have "0 \<le> N" by (simp add: N_def)
  then have n: "(of_nat (tenths x) :: rat) = of_int N"
    by (simp add: tenths_def N_def)
  have fl: "of_int N \<le> x * 10 + 1 / 2" "x * 10 + 1 / 2 < of_int N + 1"
    unfolding N_def by linarith+
  have bq: "of_int b * q = of_int a" using b by (simp add: q_def)
  have "20 * of_int a < (2 ^ 53 :: rat)"
    using small by (metis of_int_less_iff of_int_mult of_int_numeral of_int_power)
  then have "20 * (of_int b * q) / 2 ^ 53 < 1" by (simp add: bq)
  then have eps: "of_int b * (10 * (q / 2 ^ 53)) < 1 / 2" by (simp add: field_simps)
  define D where "D = 2 * b * N - 20 * a"
  have D: "(of_int D :: rat) = 2 * of_int b * (of_int N - 10 * q)"
    by (simp add: D_def right_diff_distrib) (simp add: bq [symmetric])
  have "\<bar>of_int N - 10 * q\<bar> \<le> 1 / 2 + 10 * (q / 2 ^ 53)"
    using fl err by linarith
  then have "of_int b * \<bar>of_int N - 10 * q\<bar> \<le> of_int b * (1 / 2 + 10 * (q / 2 ^ 53))"
    using b by (simp add: mult_left_mono)
  also have "\<dots> < of_int b / 2 + 1 / 2"
    using eps by (simp add: distrib_left)
  finally have "2 * (of_int b * \<bar>of_int N - 10 * q\<bar>) < of_int b + (1 :: rat)" by simp
  moreover have "\<bar>of_int D :: rat\<bar> = 2 * (of_int b * \<bar>of_int N - 10 * q\<bar>)"
    using b by (simp add: D abs_mult)
  ultimately have "\<bar>of_int D :: rat\<bar> < of_int (b + 1)" by simp
  then have "\<bar>D\<bar> < b + 1"
    by (metis of_int_abs of_int_less_iff)
  then have "\<bar>D\<bar> \<le> b" by simp
  then have "\<bar>of_int D :: rat\<bar> \<le> of_int b"
    by (metis of_int_abs of_int_le_iff)
  then have "2 * (of_int b * \<bar>of_int N - 10 * q\<bar>) \<le> 2 * (of_int b * (1 / 2 :: rat))"
    using b by (simp add: D abs_mult)
  then have "\<bar>of_int N - 10 * q\<bar> \<le> 1 / 2"
    using b by (simp only: mult_le_cancel_left_pos of_int_0_less_iff zero_less_numeral)
  then show ?thesis
    unfolding n [unfolded x_def] q_def .
qed

lemma foldl_rating: "foldl (\<lambda>sum review. sum + rating review) z rs = z + sum_list (map rating rs)"
  by (induction rs arbitrary: z) simp_all

lemma sum_rating_bounds:
  assumes "\<forall>r \<in> set rs. 0 \<le> rating r \<and> rating r \<le> 5"
  shows "0 \<le> sum_list (map rating rs) \<and> sum_list (map rating rs) \<le> 5 * int (length rs)"
  using assms by (induction rs) auto

lemma averageRating_string:
  assumes "rs \<noteq> []" and that: "0 \<le> sum_list (map rating rs)"
  shows "averageRating rs =
           JsString (fixed1 (tenths (js_divide (sum_list (map rating rs)) (int (length rs)))))"
proof -
  have "0 \<le> js_divide (sum_list (map rating rs)) (int (length rs))"
  proof -
    let ?a = "sum_list (map rating rs)" and ?b = "int (length rs)"
    have b: "0 < ?b" using assms by simp
    have "\<bar>js_divide ?a ?b - of_int ?a / of_int ?b\<bar> \<le> of_int ?a / of_int ?b / 2 ^ 53"
      using that b by (rule js_divide_error)
    moreover have "0 \<le> (of_int ?a / of_int ?b :: rat)" using that b by simp
    then have "(of_int ?a / of_int ?b :: rat) / 2 ^ 53 \<le> of_int ?a / of_int ?b"
      by (simp add: field_simps)
    ultimately show ?thesis by linarith
  qed
  then show ?thesis
    using assms by (simp add: averageRating_def foldl_rating toFixed1_def)
qed

lemma averageRating_two: "averageRating [a\<lparr>rating := 5\<rparr>, b\<lparr>rating := 4\<rparr>] = JsString ''4.5''"
proof -
  have "fixed1 (tenths (js_divide 9 2)) = ''4.5''" by code_simp
  then show ?thesis by (simp add: averageRating_string)
qed

lemma nearest_tenth:
  fixes q :: rat and n m :: nat
  assumes "\<bar>of_nat n - 10 * q\<bar> \<le> 1 / 2"
  shows "\<bar>of_nat n / 10 - q\<bar> \<le> 1 / 20" and "\<bar>of_nat n / 10 - q\<bar> \<le> \<bar>of_nat m / 10 - q\<bar>"
proof -
  show 1: "\<bar>of_nat n / 10 - q\<bar> \<le> 1 / 20" using assms by linarith
  show "\<bar>of_nat n / 10 - q\<bar> \<le> \<bar>of_nat m / 10 - q\<bar>"
  proof (cases "m = n")
    case True
    then show ?thesis by simp
  next
    case False
    then have "m + 1 \<le> n \<or> n + 1 \<le> m" by linarith
    then have "(of_nat (m + 1) :: rat) \<le> of_nat n \<or> (of_nat (n + 1) :: rat) \<le> of_nat m"
      by (simp only: of_nat_le_iff)
    then have "(of_nat m :: rat) + 1 \<le> of_nat n \<or> (of_nat n :: rat) + 1 \<le> of_nat m"
      by (simp add: add.commute)
    with assms show ?thesis by linarith
  qed
qed

text \<open>
  The quotient depends on the ratio only, so what is shown for a mean halfway between
  two tenths can be computed once for each of the fifty such means up to 5.
\<close>

lemma pow2_mono: "i \<le> j \<Longrightarrow> pow2 i \<le> pow2 j"
proof -
  assume "i \<le> j"
  then have "pow2 j = pow2 i * pow2 (j - i)" and "0 \<le> j - i"
    by (simp_all add: pow2_add [symmetric])
  moreover have "(1 :: rat) \<le> pow2 (j - i)"
    using \<open>0 \<le> j - i\<close> by (simp add: pow2_nat)
  ultimately show ?thesis
    using pow2_pos [of i] by (simp add: mult_le_cancel_left1)
qed

lemma binade_unique:
  assumes "0 < a" and "0 < b"
    and lo: "pow2 e * of_int b \<le> of_int a" and hi: "of_int a < pow2 (e + 1) * of_int b"
  shows "binade a b = e"
proof (rule ccontr)
  assume ne: "binade a b \<noteq> e"
  have b: "(0 :: rat) < of_int b" using assms(2) by simp
  note L = binade_lower [OF assms(1,2)] and U = binade_upper [OF assms(1,2)]
  show False
  proof (cases "binade a b < e")
    case True
    then have "pow2 (binade a b + 1) \<le> pow2 e" by (intro pow2_mono) simp
    then have "pow2 (binade a b + 1) * of_int b \<le> pow2 e * of_int b"
      using b by (simp add: mult_right_mono)
    with U lo show False by linarith
  next
    case False
    with ne have "e + 1 \<le> binade a b" by simp
    then have "pow2 (e + 1) \<le> pow2 (binade a b)" by (rule pow2_mono)
    then have "pow2 (e + 1) * of_int b \<le> pow2 (binade a b) * of_int b"
      using b by (simp add: mult_right_mono)
    with L hi show False by linarith
  qed
qed

lemma js_divide_ratio:
  assumes "0 < a" and "0 < b" and "0 < c" and "0 < d" and eq: "a * d = c * b"
  shows "js_divide a b = js_divide c d"
proof -
  have b: "(0 :: rat) < of_int b" and d: "(0 :: rat) < of_int d" using assms by simp_all
  have "(of_int (a * d) :: rat) = of_int (c * b)" using eq by simp
  then have q: "(of_int a / of_int b :: rat) = of_int c / of_int d"
    using b d by (simp add: field_simps)
  have "pow2 (binade c d) \<le> of_int c / (of_int d :: rat)"
    using binade_lower [OF assms(3,4)] d by (simp add: pos_le_divide_eq)
  then have lo: "pow2 (binade c d) * of_int b \<le> of_int a"
    using b by (simp add: q [symmetric] pos_le_divide_eq)
  have "of_int c / (of_int d :: rat) < pow2 (binade c d + 1)"
    using binade_upper [OF assms(3,4)] d by (simp add: pos_divide_less_eq)
  then have hi: "of_int a < pow2 (binade c d + 1) * of_int b"
    using b by (simp add: q [symmetric] pos_divide_less_eq)
  have "binade a b = binade c d"
    using assms(1,2) lo hi by (rule binade_unique)
  then have "js_divide_pos a b = js_divide_pos c d"
    by (simp add: js_divide_pos_def q)
  with assms show ?thesis by (simp add: js_divide_def)
qed

lemma halfway_table:
  "list_all (\<lambda>k. tenths (js_divide (2 * int k + 1) 20)
                   = shown_tenths (of_int (2 * int k + 1) / 20)) [0..<50]"
  by code_simp

lemma halfway_down_all:
  "list_all (\<lambda>q. 10 * q + 1 / 2 = of_int \<lfloor>10 * q + 1 / 2\<rfloor>) halfway_down"
  by code_simp

lemma halfway_down_halfway:
  "q \<in> set halfway_down \<Longrightarrow> 10 * q + 1 / 2 = of_int \<lfloor>10 * q + 1 / 2\<rfloor>"
  using halfway_down_all by (simp add: list_all_iff)

lemma fixed1_small:
  assumes "n < 100"
  shows "fixed1 n = [''0123456789'' ! (n div 10), CHR ''.'', ''0123456789'' ! (n mod 10)]"
proof -
  from assms have "n div 10 < 10" and "n mod 10 < 10" by simp_all
  then show ?thesis by (simp add: fixed1_def decimal.simps digit_def)
qed


lemma tenths_shown:
  assumes a: "0 \<le> a" and b: "0 < b" and a5: "a \<le> 5 * b" and small: "20 * a < 2 ^ 53"
  shows "tenths (js_divide a b) = shown_tenths (of_int a / of_int b)"
    and "tenths (js_divide a b) \<le> 50"
proof -
  define q :: rat where "q = of_int a / of_int b"
  define n where "n = tenths (js_divide a b)"
  have b': "(0 :: rat) < of_int b" using b by simp
  have q0: "0 \<le> q" using a b by (simp add: q_def)
  have "(of_int a :: rat) \<le> of_int (5 * b)" using a5 by (simp only: of_int_le_iff)
  then have q5: "q \<le> 5" using b' by (simp add: q_def pos_divide_le_eq)
  have near: "\<bar>of_nat n - 10 * q\<bar> \<le> 1 / 2"
    unfolding n_def q_def using a b small by (rule tenths_nearest)
  from near q5 have "(of_nat n :: rat) \<le> 101 / 2" by linarith
  then have "(of_nat n :: rat) < of_nat 51" by simp
  then have "n < 51" by (simp only: of_nat_less_iff)
  then show "tenths (js_divide a b) \<le> 50" by (simp add: n_def)
  define K where "K = \<lfloor>10 * q + 1 / 2\<rfloor>"
  have "n = shown_tenths q"
  proof (cases "10 * q + 1 / 2 = of_int K")
    case False
    then have "q \<notin> set halfway_down"
      using halfway_down_halfway [of q] by (auto simp add: K_def)
    then have sh: "shown_tenths q = nat K" by (simp add: shown_tenths_def K_def)
    have "10 * q + 1 / 2 \<noteq> of_int (int n + 1)"
    proof
      assume "10 * q + 1 / 2 = of_int (int n + 1)"
      then have "\<lfloor>10 * q + 1 / 2\<rfloor> = int n + 1" by (simp only: floor_of_int)
      with \<open>10 * q + 1 / 2 = of_int (int n + 1)\<close> False show False by (simp add: K_def)
    qed
    then have ne: "10 * q + 1 / 2 \<noteq> of_nat n + 1" by simp
    from near have lo: "of_nat n \<le> 10 * q + 1 / 2" and "10 * q + 1 / 2 \<le> of_nat n + 1"
      by linarith+
    with ne have "10 * q + 1 / 2 < of_nat n + 1" by linarith
    with lo have "of_int (int n) \<le> 10 * q + 1 / 2" and "10 * q + 1 / 2 < of_int (int n) + 1"
      by simp_all
    then have "K = int n" unfolding K_def by (rule floor_unique)
    with sh show ?thesis by simp
  next
    case True
    from q0 have "0 < 10 * q + 1 / 2" by simp
    with True have "(0 :: rat) < of_int K" by simp
    then have K1: "1 \<le> K" by simp
    from q5 True have "(of_int K :: rat) \<le> 101 / 2" by simp
    then have "(of_int K :: rat) < of_int 51" by simp
    then have K50: "K < 51" by (simp only: of_int_less_iff)
    define k where "k = nat (K - 1)"
    from K1 K50 have k: "k < 50" and Kk: "K = int k + 1" by (simp_all add: k_def)
    from True have q: "q = of_int (2 * int k + 1) / 20" by (simp add: Kk)
    then have "of_int a / (of_int b :: rat) = of_int (2 * int k + 1) / 20" by (simp add: q_def)
    then have "(of_int a :: rat) * 20 = of_int (2 * int k + 1) * of_int b"
      using b' by (simp add: field_simps)
    then have "(of_int (a * 20) :: rat) = of_int ((2 * int k + 1) * b)" by simp
    then have eq: "a * 20 = (2 * int k + 1) * b" by (simp only: of_int_eq_iff)
    with b have "0 < a * 20" by simp
    then have a0: "0 < a" by simp
    have "js_divide a b = js_divide (2 * int k + 1) 20"
      using a0 b _ _ eq by (rule js_divide_ratio) simp_all
    moreover from halfway_table k
    have "tenths (js_divide (2 * int k + 1) 20) = shown_tenths (of_int (2 * int k + 1) / 20)"
      by (simp add: list_all_iff)
    ultimately show ?thesis by (simp add: n_def q)
  qed
  then show "tenths (js_divide a b) = shown_tenths (of_int a / of_int b)"
    by (simp add: n_def q_def)
qed

text \<open>
  C4, as the code has it. For at most \<open>2^32 - 1\<close> reviews (an array holds no more)
  with ratings in 0..5, the average of no reviews is the number 0, and the average of
  some reviews is the string of three characters, digit, point, digit, of the tenth
  nearest to the exact mean \<open>sum / count\<close>; for a mean halfway between two tenths it
  is the upper tenth, except for the twenty means of \<open>halfway_down\<close>, where it is the
  lower one. No number with one decimal is nearer to the mean. The average of two
  reviews rated 5 and 4 is \<open>4.5\<close>.
\<close>

theorem averageRating_shown:
  assumes "\<forall>r \<in> set rs. 0 \<le> rating r \<and> rating r \<le> 5" and "length rs < 2 ^ 32"
  shows "(rs = [] \<longrightarrow> averageRating rs = JsNumber 0)
    \<and> (rs \<noteq> [] \<longrightarrow>
          averageRating rs
            = JsString [''0123456789'' ! (shown_tenths (mean rs) div 10), CHR ''.'',
                        ''0123456789'' ! (shown_tenths (mean rs) mod 10)]
          \<and> \<bar>of_nat (shown_tenths (mean rs)) / 10 - mean rs\<bar> \<le> 1 / 20
          \<and> (\<forall>m :: nat. \<bar>of_nat (shown_tenths (mean rs)) / 10 - mean rs\<bar>
                            \<le> \<bar>of_nat m / 10 - mean rs\<bar>))
    \<and> averageRating [a\<lparr>rating := 5\<rparr>, b\<lparr>rating := 4\<rparr>] = JsString ''4.5''
    \<and> averageRating [] = JsNumber 0"
proof -
  let ?a = "sum_list (map rating rs)" and ?b = "int (length rs)"
  let ?n = "tenths (js_divide ?a ?b)"
  from sum_rating_bounds [OF assms(1)]
  have a0: "0 \<le> ?a" and a5: "?a \<le> 5 * ?b" by simp_all
  have "?b < 2 ^ 32" using assms(2) by simp
  with a5 have small: "20 * ?a < 2 ^ 53" by simp
  have some: "averageRating rs
            = JsString [''0123456789'' ! (shown_tenths (mean rs) div 10), CHR ''.'',
                        ''0123456789'' ! (shown_tenths (mean rs) mod 10)]
          \<and> \<bar>of_nat (shown_tenths (mean rs)) / 10 - mean rs\<bar> \<le> 1 / 20
          \<and> (\<forall>m :: nat. \<bar>of_nat (shown_tenths (mean rs)) / 10 - mean rs\<bar>
                            \<le> \<bar>of_nat m / 10 - mean rs\<bar>)"
    if ne: "rs \<noteq> []"
  proof -
    from ne have b0: "0 < ?b" by simp
    have m: "mean rs = of_int ?a / of_int ?b" by (simp add: mean_def)
    have n: "?n = shown_tenths (mean rs)" and n50: "?n \<le> 50"
      unfolding m using a0 b0 a5 small by (rule tenths_shown)+
    have near: "\<bar>of_nat ?n - 10 * mean rs\<bar> \<le> 1 / 2"
      unfolding m using a0 b0 small by (rule tenths_nearest)
    have "averageRating rs = JsString (fixed1 ?n)"
      using ne a0 by (rule averageRating_string)
    moreover from n50 have "?n < 100" by simp
    ultimately have "averageRating rs
        = JsString [''0123456789'' ! (?n div 10), CHR ''.'', ''0123456789'' ! (?n mod 10)]"
      by (simp only: fixed1_small)
    with nearest_tenth [OF near] show ?thesis unfolding n by blast
  qed
  have "averageRating [] = JsNumber 0" by (simp add: averageRating_def)
  with some show ?thesis by (auto simp add: averageRating_two)
qed

theorem averageRating_shown_witness:
  "averageRating (reviews initial) = JsString ''4.5''
   \<and> mean (reviews initial) = 9 / 2
   \<and> averageRating (stars [5, 5]) = JsString ''5.0''
   \<and> averageRating halfway_low = JsString ''4.3''
   \<and> mean halfway_low = 87 / 20"
proof -
  have i: "\<forall>r \<in> set (reviews initial). 0 \<le> rating r \<and> rating r \<le> 5"
    "length (reviews initial) < 2 ^ 32" "reviews initial \<noteq> []"
    by (simp_all add: initial_def)
  have f: "\<forall>r \<in> set (stars [5, 5]). 0 \<le> rating r \<and> rating r \<le> 5"
    "length (stars [5, 5]) < 2 ^ 32" "stars [5, 5] \<noteq> []"
    by (simp_all add: stars_def entry_def)
  have "list_all (\<lambda>r. 0 \<le> rating r \<and> rating r \<le> 5) halfway_low" by code_simp
  then have h: "\<forall>r \<in> set halfway_low. 0 \<le> rating r \<and> rating r \<le> 5"
    by (simp add: list_all_iff)
  have h': "length halfway_low < 2 ^ 32" "halfway_low \<noteq> []"
    by (simp_all add: halfway_low_def stars_def)
  have mi: "mean (reviews initial) = 9 / 2" by (simp add: mean_def initial_def)
  have mf: "mean (stars [5, 5]) = 5" by (simp add: mean_def stars_def entry_def)
  have mh: "mean halfway_low = 87 / 20" by code_simp
  have s: "shown_tenths (9 / 2) = 45" "shown_tenths 5 = 50" "shown_tenths (87 / 20) = 43"
    by code_simp+
  from averageRating_shown [OF i(1,2)] i(3)
  have 1: "averageRating (reviews initial)
            = JsString [''0123456789'' ! (shown_tenths (mean (reviews initial)) div 10), CHR ''.'',
                        ''0123456789'' ! (shown_tenths (mean (reviews initial)) mod 10)]"
    by blast
  from averageRating_shown [OF f(1,2)] f(3)
  have 2: "averageRating (stars [5, 5])
            = JsString [''0123456789'' ! (shown_tenths (mean (stars [5, 5])) div 10), CHR ''.'',
                        ''0123456789'' ! (shown_tenths (mean (stars [5, 5])) mod 10)]"
    by blast
  from averageRating_shown [OF h h'(1)] h'(2)
  have 3: "averageRating halfway_low
            = JsString [''0123456789'' ! (shown_tenths (mean halfway_low) div 10), CHR ''.'',
                        ''0123456789'' ! (shown_tenths (mean halfway_low) mod 10)]"
    by blast
  from 1 2 3 show ?thesis unfolding mi mf mh s by (simp add: mi mh)
qed

text \<open>
  This is not the mean rounded to one decimal by any rule for the halfway case: 4.25
  goes up to \<open>4.3\<close>, 4.35 goes down to \<open>4.3\<close> where rounding half up gives 4.4, and
  4.75 goes up to \<open>4.8\<close>. Rounding half up or half even fails at 4.35, half down at
  4.25 and half odd at 4.75.
\<close>

lemma three_halfway_means:
  "averageRating (stars [5, 4, 4, 4]) = JsString ''4.3''"
  "mean (stars [5, 4, 4, 4]) = 17 / 4"
  "averageRating halfway_low = JsString ''4.3''"
  "mean halfway_low = 87 / 20"
  "averageRating (stars [5, 5, 5, 4]) = JsString ''4.8''"
  "mean (stars [5, 5, 5, 4]) = 19 / 4"
  by code_simp+

lemma round_tenths_values:
  "round_tenths HalfDown (17 / 4) = 42" "round_tenths HalfEven (17 / 4) = 42"
  "round_tenths HalfUp (87 / 20) = 44" "round_tenths HalfOdd (19 / 4) = 47"
  by code_simp+

theorem averageRating_rounding_counterexample:
  "averageRating (stars [5, 4, 4, 4]) = JsString ''4.3''
   \<and> averageRating halfway_low = JsString ''4.3''
   \<and> averageRating (stars [5, 5, 5, 4]) = JsString ''4.8''
   \<and> round_tenths HalfUp (mean halfway_low) = 44
   \<and> \<not> (\<exists>t. round_tenths t (mean (stars [5, 4, 4, 4])) = 43
            \<and> round_tenths t (mean halfway_low) = 43
            \<and> round_tenths t (mean (stars [5, 5, 5, 4])) = 48)"
proof -
  have "\<not> (round_tenths t (17 / 4) = 43 \<and> round_tenths t (87 / 20) = 43
            \<and> round_tenths t (19 / 4) = 48)" for t
    using round_tenths_values by (cases t) simp_all
  then show ?thesis
    by (simp add: three_halfway_means round_tenths_values)
qed

end
